theory Spec2Isabelle
  imports Complex_Main "HOL-Library.AList"
begin

section \<open>JavaScript values used by the audio code\<close>

text \<open>
  A JavaScript number is modelled as a real or \<open>NaN\<close>. Reading a typed array out of
  range yields \<open>undefined\<close>, which every arithmetic operator converts to \<open>NaN\<close>, so
  \<open>undefined\<close> in a numeric position is \<open>NaN\<close> here. Rounding to IEEE precision and
  overflow to the infinities are not modelled: audio samples arrive as 32-bit floats and
  are stored into \<open>Float32Array\<close>s unchanged.
\<close>

datatype jsnum = Num real | NaN

instantiation jsnum :: "{plus, minus, times}"
begin

fun plus_jsnum :: "jsnum \<Rightarrow> jsnum \<Rightarrow> jsnum" where
  "plus_jsnum (Num a) (Num b) = Num (a + b)"
| "plus_jsnum _ _ = NaN"

fun minus_jsnum :: "jsnum \<Rightarrow> jsnum \<Rightarrow> jsnum" where
  "minus_jsnum (Num a) (Num b) = Num (a - b)"
| "minus_jsnum _ _ = NaN"

fun times_jsnum :: "jsnum \<Rightarrow> jsnum \<Rightarrow> jsnum" where
  "times_jsnum (Num a) (Num b) = Num (a * b)"
| "times_jsnum _ _ = NaN"

instance ..

end

text \<open>The comparison \<open>x >= 0\<close>: false when \<open>x\<close> is \<open>NaN\<close>.\<close>

fun js_ge0 :: "jsnum \<Rightarrow> bool" where
  "js_ge0 (Num a) = (0 \<le> a)"
| "js_ge0 NaN = False"

text \<open>The comparison \<open>x == y\<close> of two numbers: false as soon as one is \<open>NaN\<close>.\<close>

fun js_eq :: "jsnum \<Rightarrow> jsnum \<Rightarrow> bool" where
  "js_eq (Num a) (Num b) = (a = b)"
| "js_eq _ _ = False"

text \<open>
  An array index is a JavaScript number that holds an integer or \<open>NaN\<close> (\<open>None\<close>).
  The operator \<open>%\<close> truncates: the result takes the sign of the dividend, and a zero
  divisor gives \<open>NaN\<close>.
\<close>

type_synonym jsindex = "int option"

definition js_rem :: "int \<Rightarrow> int \<Rightarrow> jsindex" where
  "js_rem a b = (if b = 0 then None else Some (sgn a * (\<bar>a\<bar> mod \<bar>b\<bar>)))"

fun js_rem_idx :: "jsindex \<Rightarrow> int \<Rightarrow> jsindex" where
  "js_rem_idx None b = None"
| "js_rem_idx (Some a) b = js_rem a b"

fun js_add_idx :: "jsindex \<Rightarrow> int \<Rightarrow> jsindex" where
  "js_add_idx None k = None"
| "js_add_idx (Some a) k = Some (a + k)"

text \<open>
  \<open>Float32Array\<close> element access: a read outside the array (or at \<open>NaN\<close>) is
  \<open>undefined\<close>, a write there is ignored.
\<close>

fun ta_get :: "jsnum list \<Rightarrow> jsindex \<Rightarrow> jsnum" where
  "ta_get buf None = NaN"
| "ta_get buf (Some i) = (if 0 \<le> i \<and> i < int (length buf) then buf ! nat i else NaN)"

fun ta_set :: "jsnum list \<Rightarrow> jsindex \<Rightarrow> jsnum \<Rightarrow> jsnum list" where
  "ta_set buf None v = buf"
| "ta_set buf (Some i) v = (if 0 \<le> i \<and> i < int (length buf) then buf[nat i := v] else buf)"

text \<open>
  What \<open>write\<close> can be handed: a single number (which has no \<open>length\<close> property) or a
  \<open>Float32Array\<close>.
\<close>

datatype jsdata = JNumber jsnum | JFloat32Array "jsnum list"

text \<open>\<open>data.length\<close>: \<open>undefined\<close> (\<open>None\<close>) on a number.\<close>

fun data_length :: "jsdata \<Rightarrow> nat option" where
  "data_length (JNumber x) = None"
| "data_length (JFloat32Array xs) = Some (length xs)"

text \<open>\<open>data[i]\<close> for \<open>i\<close> below \<open>data.length\<close>.\<close>

fun data_at :: "jsdata \<Rightarrow> nat \<Rightarrow> jsnum" where
  "data_at (JNumber x) i = NaN"
| "data_at (JFloat32Array xs) i = (if i < length xs then xs ! i else NaN)"

section \<open>RotatingAudioBuffer (osc-worker.js)\<close>

record RotatingAudioBuffer =
  length_rb :: nat
  buffer :: "jsnum list"
  writeIndex :: jsindex

definition RotatingAudioBuffer_new :: "nat \<Rightarrow> RotatingAudioBuffer" where
  "RotatingAudioBuffer_new len =
     \<lparr>length_rb = len, buffer = replicate len (Num 0), writeIndex = Some 0\<rparr>"

text \<open>One pass of the body of the loop in \<open>write\<close>.\<close>

definition write_step :: "RotatingAudioBuffer \<Rightarrow> jsnum \<Rightarrow> RotatingAudioBuffer" where
  "write_step rb v =
     (let rb1 = rb\<lparr>buffer := ta_set (buffer rb) (writeIndex rb) v\<rparr>
      in rb1\<lparr>writeIndex := js_rem_idx (js_add_idx (writeIndex rb1) 1) (int (length_rb rb1))\<rparr>)"

text \<open>
  \<open>for (let i = 0; i < data.length; i++)\<close>: the comparison with \<open>undefined\<close> is false,
  so the loop runs \<open>data.length\<close> times on an array and not at all on a number.
\<close>

function write_loop :: "RotatingAudioBuffer \<Rightarrow> jsdata \<Rightarrow> nat \<Rightarrow> RotatingAudioBuffer" where
  "write_loop rb data i =
     (case data_length data of
        None \<Rightarrow> rb
      | Some n \<Rightarrow> if i < n then write_loop (write_step rb (data_at data i)) data (Suc i) else rb)"
  by pat_completeness auto
termination
  by (relation "measure (\<lambda>(rb, data, i). the (data_length data) - i)") auto

declare write_loop.simps [simp del]

text \<open>The method \<open>write\<close> (the name is reserved in Isabelle, hence the suffix).\<close>

definition write_rb :: "RotatingAudioBuffer \<Rightarrow> jsdata \<Rightarrow> RotatingAudioBuffer" where
  "write_rb rb data = write_loop rb data 0"

text \<open>The loop of \<open>read\<close>: the state is the loop counter, \<open>readIndex\<close> and the target.\<close>

function read_loop ::
  "RotatingAudioBuffer \<Rightarrow> nat \<Rightarrow> nat \<Rightarrow> jsindex \<Rightarrow> jsnum list \<Rightarrow> jsnum list" where
  "read_loop rb targetLength i readIndex targetBuffer =
     (if i < targetLength
      then read_loop rb targetLength (Suc i)
             (js_rem_idx (js_add_idx readIndex 1) (int (length_rb rb)))
             (ta_set targetBuffer (Some (int i)) (ta_get (buffer rb) readIndex))
      else targetBuffer)"
  by pat_completeness auto
termination
  by (relation "measure (\<lambda>(rb, targetLength, i, readIndex, targetBuffer). targetLength - i)") auto

declare read_loop.simps [simp del]

text \<open>
  \<open>read\<close> returns the buffer object as it leaves it together with the filled target.
\<close>

definition read :: "RotatingAudioBuffer \<Rightarrow> jsnum list \<Rightarrow> RotatingAudioBuffer \<times> jsnum list" where
  "read rb targetBuffer =
     (let targetLength = length targetBuffer;
          readIndex = js_rem_idx
            (js_add_idx (js_add_idx (writeIndex rb) (- int targetLength)) (int (length_rb rb)))
            (int (length_rb rb))
      in (rb, read_loop rb targetLength 0 readIndex targetBuffer))"

section \<open>Messages between the threads\<close>

text \<open>
  What travels as \<open>buffer\<close> in a message: an \<open>ArrayBuffer\<close> (seen here as its 32-bit
  float slots; it has \<open>byteLength\<close> but no \<open>length\<close> property) or an array-like object
  with a \<open>length\<close>. \<open>new Float32Array\<close> views the former and copies the latter;
  on \<open>undefined\<close> it builds an empty array.
\<close>

datatype jsbuffer = ArrayBuffer "jsnum list" | ArrayLike "jsnum list"

fun buffer_length :: "jsbuffer option \<Rightarrow> nat option" where
  "buffer_length None = None"
| "buffer_length (Some (ArrayBuffer xs)) = None"
| "buffer_length (Some (ArrayLike xs)) = Some (length xs)"

fun new_Float32Array :: "jsbuffer option \<Rightarrow> jsnum list" where
  "new_Float32Array None = []"
| "new_Float32Array (Some (ArrayBuffer xs)) = xs"
| "new_Float32Array (Some (ArrayLike xs)) = xs"

text \<open>
  The object \<open>event.data\<close>, with the properties the handlers look at; a property that
  is not set is \<open>None\<close>.
\<close>

record message_data =
  data_type :: "string option"
  data_message :: "string option"
  data_buffer :: "jsbuffer option"
  data_requestId :: "nat option"

datatype error = TypeError | RangeError

section \<open>OscWorker (osc-worker.js)\<close>

record OscWorker =
  rotatingBuffer :: RotatingAudioBuffer

definition OscWorker_new :: "nat \<Rightarrow> OscWorker" where
  "OscWorker_new sampleRate = \<lparr>rotatingBuffer = RotatingAudioBuffer_new sampleRate\<rparr>"

text \<open>\<open>handleMessage\<close> returns the worker and the messages it posted.\<close>

definition OscWorker_handleMessage ::
  "OscWorker \<Rightarrow> message_data \<Rightarrow> OscWorker \<times> message_data list" where
  "OscWorker_handleMessage w e =
     (if data_type e = Some ''dump'' then
        (let buf = data_buffer e;
             writeArray = new_Float32Array buf
         in if buf \<noteq> None \<and> (case buffer_length buf of None \<Rightarrow> False | Some n \<Rightarrow> n > 0) then
              (let (rb, filled) = read (rotatingBuffer w) writeArray
               in (w\<lparr>rotatingBuffer := rb\<rparr>,
                   [\<lparr>data_type = Some ''dumped'', data_message = None,
                     data_buffer = Some (ArrayBuffer filled), data_requestId = None\<rparr>]))
            else (w, []))
      else (w, []))"

text \<open>
  \<open>process(inputs, outputs)\<close>: \<open>inputs\<close> is a list of inputs, each a list of channels,
  each a list of samples. \<open>inputs[0].length\<close> throws when there is no first input.
  \<open>monoInput\<close> is \<open>input[0][0]\<close>, the first sample of the first channel.
\<close>

definition OscWorker_process ::
  "OscWorker \<Rightarrow> jsnum list list list \<Rightarrow> error + (OscWorker \<times> bool)" where
  "OscWorker_process w inputs =
     (case inputs of
        [] \<Rightarrow> Inl TypeError
      | input # _ \<Rightarrow>
          if length input > 0 \<and> length (input ! 0) > 0 then
            (let monoInput = JNumber (input ! 0 ! 0)
             in Inr (w\<lparr>rotatingBuffer := write_rb (rotatingBuffer w) monoInput\<rparr>, True))
          else Inr (w, True))"

section \<open>IIRBandBoostFilter (script.js)\<close>

record IIRBandBoostFilter =
  Fs :: real
  f0 :: real
  peakGainDB :: real
  b0 :: jsnum
  b1 :: jsnum
  b2 :: jsnum
  a1 :: jsnum
  a2 :: jsnum
  x1 :: jsnum
  x2 :: jsnum
  y1 :: jsnum
  y2 :: jsnum

text \<open>
  The constructor; \<open>Math.pow(b, e)\<close> with a positive base is \<open>b powr e\<close>. The warnings
  it prints are not modelled.
\<close>

definition IIRBandBoostFilter_new :: "int \<Rightarrow> real \<Rightarrow> real \<Rightarrow> IIRBandBoostFilter" where
  "IIRBandBoostFilter_new midiNoteNumber samplingFrequency gainDB =
     (let Fs' = samplingFrequency;
          f0' = 440 * 2 powr ((real_of_int midiNoteNumber - 69) / 12);
          (c0, c1, c2, d1, d2) =
            (if f0' \<le> 0 \<or> f0' \<ge> Fs' / 2 then (1, 0, 0, 0, 0)
             else
               (let w0 = 2 * pi * f0' / Fs';
                    cos_w0 = cos w0;
                    sin_w0 = sin w0;
                    ratio_radius = 2 powr (25 / 1200);
                    Q = 1 / (ratio_radius - 1 / ratio_radius);
                    alpha = sin_w0 / (2 * Q);
                    A = 10 powr (gainDB / 20);
                    b0_rbj_num = 1 + alpha * A;
                    b1_rbj_num = - 2 * cos_w0;
                    b2_rbj_num = 1 - alpha * A;
                    a0_rbj_den = 1 + alpha / A;
                    a1_rbj_num = - 2 * cos_w0;
                    a2_rbj_num = 1 - alpha / A
                in if a0_rbj_den = 0 then (1, 0, 0, 0, 0)
                   else (b0_rbj_num / a0_rbj_den, b1_rbj_num / a0_rbj_den,
                         b2_rbj_num / a0_rbj_den, a1_rbj_num / a0_rbj_den,
                         a2_rbj_num / a0_rbj_den)))
      in \<lparr>Fs = Fs', f0 = f0', peakGainDB = gainDB,
          b0 = Num c0, b1 = Num c1, b2 = Num c2, a1 = Num d1, a2 = Num d2,
          x1 = Num 0, x2 = Num 0, y1 = Num 0, y2 = Num 0\<rparr>)"

text \<open>\<open>process\<close>, statement by statement; it returns the filter and the output sample.\<close>

definition IIRBandBoostFilter_process ::
  "IIRBandBoostFilter \<Rightarrow> jsnum \<Rightarrow> IIRBandBoostFilter \<times> jsnum" where
  "IIRBandBoostFilter_process flt inputSample =
     (let x0 = inputSample;
          outputSample = b0 flt * x0 + b1 flt * x1 flt + b2 flt * x2 flt
                         - a1 flt * y1 flt - a2 flt * y2 flt;
          s1 = flt\<lparr>x2 := x1 flt\<rparr>;
          s2 = s1\<lparr>x1 := x0\<rparr>;
          s3 = s2\<lparr>y2 := y1 s2\<rparr>;
          s4 = s3\<lparr>y1 := outputSample\<rparr>
      in (s4, outputSample))"

text \<open>
  The per-sample update as the specification words it: the output from the current
  state, then the four shifts taken together.
\<close>

definition spec_PeakingFilter_process ::
  "IIRBandBoostFilter \<Rightarrow> jsnum \<Rightarrow> IIRBandBoostFilter \<times> jsnum" where
  "spec_PeakingFilter_process flt x0 =
     (let y0 = b0 flt * x0 + b1 flt * x1 flt + b2 flt * x2 flt - a1 flt * y1 flt - a2 flt * y2 flt
      in (\<lparr>Fs = Fs flt, f0 = f0 flt, peakGainDB = peakGainDB flt,
           b0 = b0 flt, b1 = b1 flt, b2 = b2 flt, a1 = a1 flt, a2 = a2 flt,
           x1 = x0, x2 = x1 flt, y1 = y0, y2 = y1 flt\<rparr>, y0))"

section \<open>DelayedIIRBandBoostFilterPair (script.js)\<close>

record DelayedIIRBandBoostFilterPair =
  pair_Fs :: real
  pair_f0 :: real
  pair_peakGainDB :: real
  filter1 :: IIRBandBoostFilter
  filter2 :: IIRBandBoostFilter
  filter1Out :: jsnum
  filter2Out :: jsnum
  delayBuffer :: "jsnum list"
  delayIndex :: jsindex
  powerMean :: jsnum

text \<open>
  The constructor. \<open>Math.round\<close> is \<open>round\<close> (halves go up); \<open>new Float32Array(n)\<close>
  throws a RangeError on a negative \<open>n\<close>.
\<close>

definition DelayedIIRBandBoostFilterPair_new ::
  "int \<Rightarrow> real \<Rightarrow> real \<Rightarrow> error + DelayedIIRBandBoostFilterPair" where
  "DelayedIIRBandBoostFilterPair_new midiNoteNumber samplingFrequency gainDB =
     (let Fs' = samplingFrequency;
          f0' = 440 * 2 powr ((real_of_int midiNoteNumber - 69) / 12);
          wavelengthInSamples = Fs' / f0';
          delayInSamples = round (wavelengthInSamples / 4)
      in if delayInSamples < 0 then Inl RangeError
         else Inr \<lparr>pair_Fs = Fs', pair_f0 = f0', pair_peakGainDB = gainDB,
                   filter1 = IIRBandBoostFilter_new midiNoteNumber samplingFrequency gainDB,
                   filter2 = IIRBandBoostFilter_new midiNoteNumber samplingFrequency gainDB,
                   filter1Out = Num 0, filter2Out = Num 0,
                   delayBuffer = replicate (nat delayInSamples) (Num 0),
                   delayIndex = Some 0,
                   powerMean = Num 0\<rparr>)"

text \<open>\<open>process\<close> returns the pair and the two filter outputs.\<close>

definition DelayedIIRBandBoostFilterPair_process ::
  "DelayedIIRBandBoostFilterPair \<Rightarrow> jsnum \<Rightarrow> DelayedIIRBandBoostFilterPair \<times> (jsnum \<times> jsnum)" where
  "DelayedIIRBandBoostFilterPair_process p inputSample =
     (let (f1, out1) = IIRBandBoostFilter_process (filter1 p) inputSample;
          p1 = p\<lparr>filter1 := f1, filter1Out := out1\<rparr>;
          (f2, out2) = IIRBandBoostFilter_process (filter2 p1)
                         (ta_get (delayBuffer p1) (delayIndex p1));
          p2 = p1\<lparr>filter2 := f2, filter2Out := out2\<rparr>;
          p3 = p2\<lparr>delayBuffer := ta_set (delayBuffer p2) (delayIndex p2) inputSample\<rparr>;
          p4 = p3\<lparr>delayIndex := js_add_idx (delayIndex p3) 1\<rparr>;
          p5 = p4\<lparr>delayIndex := js_rem_idx (delayIndex p4) (int (length (delayBuffer p4)))\<rparr>;
          nowPower = filter1Out p5 * filter1Out p5 + filter2Out p5 * filter2Out p5;
          alpha = Num (95 / 100);
          p6 = p5\<lparr>powerMean := alpha * powerMean p5 + (Num 1 - alpha) * nowPower\<rparr>
      in (p6, (filter1Out p6, filter2Out p6)))"

definition getInstantPower :: "DelayedIIRBandBoostFilterPair \<Rightarrow> jsnum" where
  "getInstantPower p = powerMean p"

section \<open>EarProcessor (script.js)\<close>

record EarProcessor =
  filters :: "DelayedIIRBandBoostFilterPair list"

text \<open>Building a list stops at the first constructor that throws.\<close>

fun collect :: "(error + 'a) list \<Rightarrow> error + 'a list" where
  "collect [] = Inr []"
| "collect (Inl e # rs) = Inl e"
| "collect (Inr v # rs) = (case collect rs of Inl e \<Rightarrow> Inl e | Inr vs \<Rightarrow> Inr (v # vs))"

text \<open>
  The constructor: 88 pairs, index \<open>i\<close> tuned to MIDI note \<open>i + 21\<close>, with the default
  peak gain of 6 dB. \<open>sampleRate\<close> is the global of the audio worklet scope.
\<close>

definition EarProcessor_new :: "real \<Rightarrow> error + EarProcessor" where
  "EarProcessor_new sampleRate =
     (case collect (map (\<lambda>i. let midiNoteNumber = int i + 21
                              in DelayedIIRBandBoostFilterPair_new midiNoteNumber sampleRate 6)
                        [0..<88]) of
        Inl e \<Rightarrow> Inl e
      | Inr fs \<Rightarrow> Inr \<lparr>filters = fs\<rparr>)"

text \<open>
  The message handler installed by the constructor. It returns the messages it posts;
  \<open>this.filters[i]\<close> is \<open>undefined\<close> beyond the end of the array, and calling a method
  on it throws.
\<close>

definition fill_power ::
  "DelayedIIRBandBoostFilterPair list \<Rightarrow> jsnum list \<Rightarrow> error + jsnum list" where
  "fill_power fs data =
     (if length fs < 88 then Inl TypeError
      else Inr (fold (\<lambda>i d. ta_set d (Some (int i)) (getInstantPower (fs ! i))) [0..<88] data))"

definition EarProcessor_onmessage ::
  "EarProcessor \<Rightarrow> message_data \<Rightarrow> error + message_data list" where
  "EarProcessor_onmessage s e =
     (if data_message e = Some ''get-data'' then
        (let requestId = data_requestId e
         in if data_buffer e = None then Inr []
            else (case fill_power (filters s) (new_Float32Array (data_buffer e)) of
                    Inl err \<Rightarrow> Inl err
                  | Inr data \<Rightarrow>
                      Inr [\<lparr>data_type = None, data_message = Some ''data'',
                            data_buffer = Some (ArrayBuffer data),
                            data_requestId = requestId\<rparr>]))
      else Inr [])"

text \<open>The inner loop of \<open>process\<close>: one sample through the filters 0 to 87, in this order.\<close>

definition process_sample ::
  "DelayedIIRBandBoostFilterPair list \<Rightarrow> jsnum \<Rightarrow> error + DelayedIIRBandBoostFilterPair list" where
  "process_sample fs inputSample =
     (if length fs < 88 then Inl TypeError
      else Inr (fold (\<lambda>i fs'. fs'[i := fst (DelayedIIRBandBoostFilterPair_process (fs' ! i) inputSample)])
                  [0..<88] fs))"

text \<open>The outer loop: the samples of the channel in order.\<close>

fun process_samples ::
  "DelayedIIRBandBoostFilterPair list \<Rightarrow> jsnum list \<Rightarrow> error + DelayedIIRBandBoostFilterPair list" where
  "process_samples fs [] = Inr fs"
| "process_samples fs (x # xs) =
     (case process_sample fs x of Inl e \<Rightarrow> Inl e | Inr fs' \<Rightarrow> process_samples fs' xs)"

text \<open>
  \<open>process(inputs, outputs, params)\<close>: a missing first input, an input without
  channels and an empty first channel return early.
\<close>

definition EarProcessor_process ::
  "EarProcessor \<Rightarrow> jsnum list list list \<Rightarrow> error + (EarProcessor \<times> bool)" where
  "EarProcessor_process s inputs =
     (case inputs of
        [] \<Rightarrow> Inr (s, True)
      | input # _ \<Rightarrow>
          (case input of
             [] \<Rightarrow> Inr (s, True)
           | inputChannel # _ \<Rightarrow>
               if length inputChannel = 0 then Inr (s, True)
               else (case process_samples (filters s) inputChannel of
                       Inl e \<Rightarrow> Inl e
                     | Inr fs \<Rightarrow> Inr (s\<lparr>filters := fs\<rparr>, True))))"

section \<open>The requesters on the control thread (script.js)\<close>

text \<open>
  A pending entry holds the \<open>resolve\<close> and \<open>reject\<close> functions of one promise; the
  promise is named by a number. What a method does to the outside is returned as a list
  of effects: calls of \<open>resolve\<close> and \<open>reject\<close> (on the named promise), console output,
  and messages posted to the port.
\<close>

type_synonym promise = nat

datatype effect =
    Resolve promise "jsnum list"
  | Reject promise string
  | Warn string nat
  | Log string
  | PostMessage message_data

text \<open>
  A JavaScript \<open>Map\<close> keeps its keys in insertion order: \<open>set\<close> replaces the value of a
  present key in place and appends a new one (\<open>AList.update\<close>), \<open>delete\<close> removes it.
  The request counter is a natural number: a JavaScript number counts exactly up to
  \<open>2 ^ 53\<close>, far beyond any run of the page.
\<close>

record EarDataRequester =
  port_onmessage :: bool
  pendingRequests :: "(nat \<times> promise) list"
  requestIdCounter :: nat

definition EarDataRequester_new :: EarDataRequester where
  "EarDataRequester_new = \<lparr>port_onmessage = True, pendingRequests = [], requestIdCounter = 0\<rparr>"

definition handleWorkerMessage ::
  "EarDataRequester \<Rightarrow> message_data \<Rightarrow> EarDataRequester \<times> effect list" where
  "handleWorkerMessage r e =
     (if data_message e = Some ''data'' then
        (case data_requestId e of
           None \<Rightarrow> (r, [])
         | Some requestId \<Rightarrow>
             (case map_of (pendingRequests r) requestId of
                Some resolve_reject \<Rightarrow>
                  (r\<lparr>pendingRequests := AList.delete requestId (pendingRequests r)\<rparr>,
                   [Resolve resolve_reject (new_Float32Array (data_buffer e))])
              | None \<Rightarrow>
                  (r, [Warn ''EarDataRequester: Received data for unknown requestId: ''
                         requestId])))
      else (r, []))"

text \<open>
  \<open>getEarPowerData\<close>. The new promise takes the number of the request id allocated
  with it. Whether \<open>port.postMessage\<close> throws is decided by the port: \<open>thrown\<close> is the
  error it throws, if any.
\<close>

definition getEarPowerData ::
  "EarDataRequester \<Rightarrow> string option \<Rightarrow> EarDataRequester \<times> effect list" where
  "getEarPowerData r thrown =
     (let requestId = requestIdCounter r;
          new_promise = requestId;
          r1 = r\<lparr>requestIdCounter := requestIdCounter r + 1\<rparr>;
          r2 = r1\<lparr>pendingRequests := AList.update requestId new_promise (pendingRequests r1)\<rparr>;
          bufferToFill = ArrayBuffer (replicate 88 (Num 0));
          msg = \<lparr>data_type = None, data_message = Some ''get-data'',
                 data_buffer = Some bufferToFill, data_requestId = Some requestId\<rparr>
      in case thrown of
           None \<Rightarrow> (r2, [PostMessage msg])
         | Some err \<Rightarrow>
             (r2\<lparr>pendingRequests := AList.delete requestId (pendingRequests r2)\<rparr>,
              [Reject new_promise err]))"

definition destroy :: "EarDataRequester \<Rightarrow> EarDataRequester \<times> effect list" where
  "destroy r =
     (let r1 = r\<lparr>port_onmessage := False\<rparr>;
          rejections = map (\<lambda>(requestId, resolve_reject).
                              Reject resolve_reject ''EarDataRequester instance was destroyed.'')
                           (pendingRequests r1);
          r2 = r1\<lparr>pendingRequests := []\<rparr>
      in (r2, rejections @ [Log ''EarDataRequester destroyed.'']))"

text \<open>The request side of \<open>OscRender\<close>: its pending map, its counter and \<open>_getOscData\<close>.\<close>

record OscRender =
  osc_pendingRequests :: "(nat \<times> promise) list"
  osc_requestIdCounter :: nat

definition getOscData :: "OscRender \<Rightarrow> string option \<Rightarrow> OscRender \<times> effect list" where
  "getOscData r thrown =
     (let requestId = osc_requestIdCounter r;
          new_promise = requestId;
          r1 = r\<lparr>osc_requestIdCounter := osc_requestIdCounter r + 1\<rparr>;
          r2 = r1\<lparr>osc_pendingRequests :=
                    AList.update requestId new_promise (osc_pendingRequests r1)\<rparr>;
          bufferToFill = ArrayBuffer (replicate 128 (Num 0));
          msg = \<lparr>data_type = None, data_message = Some ''dump'',
                 data_buffer = Some bufferToFill, data_requestId = Some requestId\<rparr>
      in case thrown of
           None \<Rightarrow>
             (r2\<lparr>osc_pendingRequests :=
                    AList.update requestId new_promise (osc_pendingRequests r2)\<rparr>,
              [PostMessage msg])
         | Some err \<Rightarrow> (r2, []))"

text \<open>
  What happens to a requester over time: calls of \<open>getEarPowerData\<close>, messages arriving
  from the worker (delivered only while \<open>port.onmessage\<close> is set) and \<open>destroy\<close>.
\<close>

datatype event = Request "string option" | WorkerMessage message_data | Destroy

fun step :: "EarDataRequester \<Rightarrow> event \<Rightarrow> EarDataRequester \<times> effect list" where
  "step r (Request thrown) = getEarPowerData r thrown"
| "step r (WorkerMessage e) = (if port_onmessage r then handleWorkerMessage r e else (r, []))"
| "step r Destroy = destroy r"

fun run :: "EarDataRequester \<times> effect list \<Rightarrow> event list \<Rightarrow> EarDataRequester \<times> effect list" where
  "run (r, effs) [] = (r, effs)"
| "run (r, effs) (ev # evs) = (let (r', new) = step r ev in run (r', effs @ new) evs)"

text \<open>How often \<open>resolve\<close> and \<open>reject\<close> of a promise were called.\<close>

definition resolved_count :: "promise \<Rightarrow> effect list \<Rightarrow> nat" where
  "resolved_count p effs = length (filter (\<lambda>eff. case eff of Resolve q buf \<Rightarrow> q = p | _ \<Rightarrow> False) effs)"

definition rejected_count :: "promise \<Rightarrow> effect list \<Rightarrow> nat" where
  "rejected_count p effs = length (filter (\<lambda>eff. case eff of Reject q err \<Rightarrow> q = p | _ \<Rightarrow> False) effs)"

section \<open>Notions used to state the properties\<close>

text \<open>
  The well-formed ring buffers: a positive capacity, a buffer of that many slots and a
  write index inside it. \<open>recent\<close> lists the slots from the oldest to the newest, and
  \<open>write_all\<close> is a run of calls of \<open>write\<close>, one per block.
\<close>

definition rb_inv :: "RotatingAudioBuffer \<Rightarrow> bool" where
  "rb_inv rb \<longleftrightarrow> 0 < length_rb rb \<and> length (buffer rb) = length_rb rb \<and>
     (\<exists>w. writeIndex rb = Some (int w) \<and> w < length_rb rb)"

definition recent :: "RotatingAudioBuffer \<Rightarrow> jsnum list" where
  "recent rb = (case writeIndex rb of None \<Rightarrow> buffer rb | Some w \<Rightarrow> rotate (nat w) (buffer rb))"

definition write_all :: "RotatingAudioBuffer \<Rightarrow> jsnum list list \<Rightarrow> RotatingAudioBuffer" where
  "write_all rb blocks = fold (\<lambda>block rb'. write_rb rb' (JFloat32Array block)) blocks rb"

text \<open>
  A filter after a stream of real samples, and the filters that pass their input
  through: identity coefficients and a state without \<open>NaN\<close>.
\<close>

definition feed :: "IIRBandBoostFilter \<Rightarrow> real list \<Rightarrow> IIRBandBoostFilter" where
  "feed flt xs = fold (\<lambda>x f. fst (IIRBandBoostFilter_process f (Num x))) xs flt"

definition identity_state :: "IIRBandBoostFilter \<Rightarrow> bool" where
  "identity_state flt \<longleftrightarrow>
     b0 flt = Num 1 \<and> b1 flt = Num 0 \<and> b2 flt = Num 0 \<and> a1 flt = Num 0 \<and> a2 flt = Num 0 \<and>
     (\<exists>p q r s. x1 flt = Num p \<and> x2 flt = Num q \<and> y1 flt = Num r \<and> y2 flt = Num s)"

text \<open>
  What holds of a requester and the effects it has had so far: the pending keys are
  distinct, each entry holds the promise of its own request id, below the counter, and
  a promise has been settled once if its id was issued and is no longer pending, and
  not at all otherwise.
\<close>

definition requester_inv :: "EarDataRequester \<Rightarrow> effect list \<Rightarrow> bool" where
  "requester_inv r effs \<longleftrightarrow>
     distinct (map fst (pendingRequests r)) \<and>
     (\<forall>(k, h) \<in> set (pendingRequests r). h = k \<and> k < requestIdCounter r) \<and>
     (\<forall>p. resolved_count p effs + rejected_count p effs =
          (if p < requestIdCounter r \<and> p \<notin> fst ` set (pendingRequests r) then 1 else 0))"

text \<open>
  The filters and pairs free of \<open>NaN\<close>, with the cursor of the pair inside a non-empty
  delay buffer and a smoothed power that is not negative; and a pair after a stream of
  real samples.
\<close>

definition filter_ok :: "IIRBandBoostFilter \<Rightarrow> bool" where
  "filter_ok flt \<longleftrightarrow>
     (\<exists>c0 c1 c2 d1 d2. b0 flt = Num c0 \<and> b1 flt = Num c1 \<and> b2 flt = Num c2
                        \<and> a1 flt = Num d1 \<and> a2 flt = Num d2) \<and>
     (\<exists>p q r s. x1 flt = Num p \<and> x2 flt = Num q \<and> y1 flt = Num r \<and> y2 flt = Num s)"

definition pair_ok :: "DelayedIIRBandBoostFilterPair \<Rightarrow> bool" where
  "pair_ok p \<longleftrightarrow>
     filter_ok (filter1 p) \<and> filter_ok (filter2 p) \<and>
     NaN \<notin> set (delayBuffer p) \<and>
     (\<exists>i. delayIndex p = Some (int i) \<and> i < length (delayBuffer p)) \<and>
     (\<exists>m. powerMean p = Num m \<and> 0 \<le> m)"

definition feed_pair ::
  "DelayedIIRBandBoostFilterPair \<Rightarrow> real list \<Rightarrow> DelayedIIRBandBoostFilterPair" where
  "feed_pair p xs = fold (\<lambda>x p'. fst (DelayedIIRBandBoostFilterPair_process p' (Num x))) xs p"

section \<open>The peaking filter\<close>

text \<open>
  C9: a call of \<open>process\<close> returns \<open>y0 = b0 x0 + b1 x1 + b2 x2 - a1 y1 - a2 y2\<close>
  computed from the current state, then shifts \<open>x2 := x1\<close>, \<open>x1 := x0\<close>, \<open>y2 := y1\<close>,
  \<open>y1 := y0\<close>, and changes nothing else: the result is a function of the state and the
  input alone.
\<close>

theorem process_matches_spec:
  "IIRBandBoostFilter_process flt x0 = spec_PeakingFilter_process flt x0"
  by (simp add: IIRBandBoostFilter_process_def spec_PeakingFilter_process_def Let_def)

text \<open>A bound on \<open>2 powr (13 / 4)\<close>, the frequency ratio of note 108 to note 69.\<close>

lemma two_powr_13_4: "(9.1::real) < 2 powr (13 / 4)"
proof (rule ccontr)
  assume "\<not> (9.1::real) < 2 powr (13 / 4)"
  then have le: "2 powr (13 / 4) \<le> (9.1::real)" by simp
  have "(2 powr (13 / 4)) ^ 4 \<le> (9.1::real) ^ 4"
    using le by (intro power_mono) simp_all
  moreover have "(2 powr (13 / 4)) ^ 4 = (2::real) powr (of_nat 4 * (13 / 4))"
    by (rule powr_power) simp
  moreover have "(2::real) powr (of_nat 4 * (13 / 4)) = 2 powr 13" by simp
  moreover have "(2::real) powr 13 = 8192" by simp
  ultimately show False by (simp add: power4_eq_xxxx)
qed

lemma identity_state_new:
  assumes "440 * 2 powr ((real_of_int m - 69) / 12) \<le> 0
           \<or> 440 * 2 powr ((real_of_int m - 69) / 12) \<ge> sr / 2"
  shows "identity_state (IIRBandBoostFilter_new m sr g)"
  using assms by (simp add: identity_state_def IIRBandBoostFilter_new_def Let_def)

lemma identity_state_process:
  assumes "identity_state flt"
  shows "identity_state (fst (IIRBandBoostFilter_process flt (Num x)))"
    and "snd (IIRBandBoostFilter_process flt (Num x)) = Num x"
  using assms by (auto simp: identity_state_def IIRBandBoostFilter_process_def Let_def)

lemma identity_state_feed: "identity_state flt \<Longrightarrow> identity_state (feed flt xs)"
  unfolding feed_def
  by (induction xs arbitrary: flt) (simp_all add: identity_state_process(1))

text \<open>
  C5: when the centre frequency \<open>440 * 2 powr ((midiNote - 69) / 12)\<close> is at most 0 or
  at least half the sample rate, the coefficients are those of the identity
  (\<open>b0 = 1\<close>, the others 0), and \<open>process(x) == x\<close> for every real sample \<open>x\<close> in every
  state the filter reaches from its initial state on real samples.
\<close>

theorem identity_pass_through:
  assumes "440 * 2 powr ((real_of_int midiNote - 69) / 12) \<le> 0
           \<or> 440 * 2 powr ((real_of_int midiNote - 69) / 12) \<ge> sampleRate / 2"
  shows "b0 (IIRBandBoostFilter_new midiNote sampleRate g) = Num 1
       \<and> b1 (IIRBandBoostFilter_new midiNote sampleRate g) = Num 0
       \<and> b2 (IIRBandBoostFilter_new midiNote sampleRate g) = Num 0
       \<and> a1 (IIRBandBoostFilter_new midiNote sampleRate g) = Num 0
       \<and> a2 (IIRBandBoostFilter_new midiNote sampleRate g) = Num 0
       \<and> (\<forall>xs x. snd (IIRBandBoostFilter_process
                         (feed (IIRBandBoostFilter_new midiNote sampleRate g) xs) (Num x)) = Num x)"
proof -
  have st: "identity_state (IIRBandBoostFilter_new midiNote sampleRate g)"
    using assms by (rule identity_state_new)
  then have "\<forall>xs x. snd (IIRBandBoostFilter_process
                         (feed (IIRBandBoostFilter_new midiNote sampleRate g) xs) (Num x)) = Num x"
    by (simp add: identity_state_feed identity_state_process(2))
  with st show ?thesis by (simp add: identity_state_def)
qed

theorem identity_pass_through_witness:
  "440 * 2 powr ((real_of_int 69 - 69) / 12) \<ge> (880::real) / 2
   \<and> b0 (IIRBandBoostFilter_new 69 880 6) = Num 1
   \<and> snd (IIRBandBoostFilter_process (feed (IIRBandBoostFilter_new 69 880 6) [1/2, -1/4]) (Num (3/4)))
       = Num (3/4)"
proof -
  have h: "440 * 2 powr ((real_of_int 69 - 69) / 12) \<le> 0
           \<or> 440 * 2 powr ((real_of_int 69 - 69) / 12) \<ge> (880::real) / 2"
    by simp
  show ?thesis using identity_pass_through [OF h, of 6] by simp
qed

lemma process_NaN_input: "snd (IIRBandBoostFilter_process flt NaN) = NaN"
  by (simp add: IIRBandBoostFilter_process_def Let_def)

lemma process_NaN_state:
  "x1 flt = NaN \<Longrightarrow> snd (IIRBandBoostFilter_process flt v) = NaN"
proof -
  assume n: "x1 flt = NaN"
  have "a + b * NaN + c - d - e = NaN" for a b c d e :: jsnum
    by (cases a; cases b; cases c; cases d; cases e) simp_all
  then show ?thesis using n by (simp add: IIRBandBoostFilter_process_def Let_def)
qed

text \<open>
  The restriction to real samples is needed. Without it the statement fails: \<open>NaN\<close>
  (or \<open>undefined\<close>, which the second filter of a pair with an empty delay buffer is
  handed) is not returned as an equal value, and a filter that has seen it once answers
  \<open>NaN\<close> to the real samples that follow. Note 108 at 8000 Hz is such a pass-through
  filter.
\<close>

theorem identity_pass_through_counterexample:
  "440 * 2 powr ((real_of_int 108 - 69) / 12) \<ge> (8000::real) / 2
   \<and> b0 (IIRBandBoostFilter_new 108 8000 6) = Num 1
   \<and> \<not> js_eq (snd (IIRBandBoostFilter_process (IIRBandBoostFilter_new 108 8000 6) NaN)) NaN
   \<and> \<not> js_eq (snd (IIRBandBoostFilter_process
                       (fst (IIRBandBoostFilter_process (IIRBandBoostFilter_new 108 8000 6) NaN))
                       (Num (1/2))))
               (Num (1/2))"
proof -
  have e: "(real_of_int 108 - 69) / 12 = (13 / 4 :: real)" by simp
  have "(4000::real) \<le> 440 * 9.1" by simp
  also have "\<dots> \<le> 440 * 2 powr (13 / 4)" using two_powr_13_4 by simp
  finally have h: "440 * 2 powr ((real_of_int 108 - 69) / 12) \<ge> (8000::real) / 2"
    unfolding e by simp
  then have c: "b0 (IIRBandBoostFilter_new 108 8000 6) = Num 1"
    by (simp add: IIRBandBoostFilter_new_def Let_def del: of_int_numeral)
  have a: "snd (IIRBandBoostFilter_process (IIRBandBoostFilter_new 108 8000 6) NaN) = NaN"
    by (rule process_NaN_input)
  have "x1 (fst (IIRBandBoostFilter_process (IIRBandBoostFilter_new 108 8000 6) NaN)) = NaN"
    by (simp add: IIRBandBoostFilter_process_def Let_def)
  then have b: "snd (IIRBandBoostFilter_process
                       (fst (IIRBandBoostFilter_process (IIRBandBoostFilter_new 108 8000 6) NaN))
                       (Num (1/2))) = NaN"
    by (rule process_NaN_state)
  show ?thesis using h c by (simp only: a b) simp
qed

section \<open>The ring buffer\<close>

lemma js_rem_nonneg: "0 \<le> a \<Longrightarrow> 0 < b \<Longrightarrow> js_rem a b = Some (a mod b)"
  by (simp add: js_rem_def sgn_if)

lemma js_rem_nat: "0 < n \<Longrightarrow> js_rem (int a) (int n) = Some (int (a mod n))"
  by (simp add: js_rem_nonneg zmod_int)

lemma write_loop_fold:
  "write_loop rb (JFloat32Array xs) i = fold (\<lambda>v rb'. write_step rb' v) (drop i xs) rb"
proof (induction rb "JFloat32Array xs" i rule: write_loop.induct)
  case (1 rb i)
  show ?case
  proof (cases "i < length xs")
    case True
    then have "drop i xs = xs ! i # drop (Suc i) xs"
      by (simp add: Cons_nth_drop_Suc)
    with True 1 show ?thesis
      by (subst write_loop.simps) simp
  next
    case False
    then show ?thesis by (subst write_loop.simps) simp
  qed
qed

lemma write_rb_fold:
  "write_rb rb (JFloat32Array xs) = fold (\<lambda>v rb'. write_step rb' v) xs rb"
  by (simp add: write_rb_def write_loop_fold)

lemma write_all_fold:
  "write_all rb blocks = fold (\<lambda>v rb'. write_step rb' v) (concat blocks) rb"
  unfolding write_all_def
  by (induction blocks arbitrary: rb) (simp_all add: write_rb_fold)

lemma js_rem_succ: "0 < n \<Longrightarrow> js_rem (int w + 1) (int n) = Some (int (Suc w mod n))"
proof -
  assume n: "0 < n"
  have "js_rem (int w + 1) (int n) = Some ((int w + 1) mod int n)"
    using n by (intro js_rem_nonneg) simp_all
  also have "(int w + 1) mod int n = int (Suc w mod n)"
    by (simp add: zmod_int add.commute)
  finally show ?thesis .
qed

lemma write_step_inv:
  assumes "rb_inv rb"
  shows "rb_inv (write_step rb v)"
proof -
  from assms obtain w where w: "writeIndex rb = Some (int w)" "w < length_rb rb"
    and len: "length (buffer rb) = length_rb rb" and pos: "0 < length_rb rb"
    by (auto simp: rb_inv_def)
  have "writeIndex (write_step rb v) = Some (int (Suc w mod length_rb rb))"
    using w pos by (simp add: write_step_def Let_def js_rem_succ)
  moreover have "Suc w mod length_rb rb < length_rb rb" using pos by simp
  moreover have "length (buffer (write_step rb v)) = length_rb rb"
    using w len by (simp add: write_step_def Let_def)
  moreover have "length_rb (write_step rb v) = length_rb rb"
    by (simp add: write_step_def Let_def)
  ultimately show ?thesis using pos unfolding rb_inv_def by metis
qed

lemma write_step_recent:
  assumes "rb_inv rb"
  shows "recent (write_step rb v) = tl (recent rb) @ [v]"
proof -
  from assms obtain w where w: "writeIndex rb = Some (int w)" "w < length_rb rb"
    and len: "length (buffer rb) = length_rb rb" and pos: "0 < length_rb rb"
    by (auto simp: rb_inv_def)
  define n where "n = length_rb rb"
  define b where "b = buffer rb"
  have wi: "writeIndex (write_step rb v) = Some (int ((w + 1) mod n))"
    using w pos by (simp add: write_step_def Let_def n_def js_rem_succ)
  have bu: "buffer (write_step rb v) = b[w := v]"
    using w len by (simp add: write_step_def Let_def b_def)
  have lb: "length b = n" using len by (simp add: b_def n_def)
  have wn: "w < n" using w by (simp add: n_def)
  have "rotate ((w + 1) mod n) (b[w := v]) = tl (rotate w b) @ [v]"
  proof (rule nth_equalityI)
    show "length (rotate ((w + 1) mod n) (b[w := v])) = length (tl (rotate w b) @ [v])"
      using lb wn by simp
  next
    fix k assume "k < length (rotate ((w + 1) mod n) (b[w := v]))"
    then have kn: "k < n" using lb by simp
    have lhs: "rotate ((w + 1) mod n) (b[w := v]) ! k = b[w := v] ! ((w + 1 + k) mod n)"
      using kn lb by (simp add: nth_rotate mod_add_left_eq)
    have ltl: "length (tl (rotate w b)) = n - 1" using lb by simp
    show "rotate ((w + 1) mod n) (b[w := v]) ! k = (tl (rotate w b) @ [v]) ! k"
    proof (cases "k = n - 1")
      case True
      have e: "w + 1 + k = w + n" using True kn by simp
      have "(w + 1 + k) mod n = w" unfolding e using wn by simp
      then have "b[w := v] ! ((w + 1 + k) mod n) = v" using lb wn by simp
      moreover have "(tl (rotate w b) @ [v]) ! k = v"
        using True ltl by (simp add: nth_append)
      ultimately show ?thesis using lhs by simp
    next
      case False
      then have k1: "Suc k < n" using kn by simp
      have "(w + 1 + k) mod n = (if w + 1 + k < n then w + 1 + k else w + 1 + k - n)"
        using wn k1 by (simp add: mod_if)
      then have ne: "(w + 1 + k) mod n \<noteq> w"
        using k1 by (simp split: if_splits)
      have kl: "k < n - 1" using k1 by simp
      have "(tl (rotate w b) @ [v]) ! k = tl (rotate w b) ! k"
        using kl ltl by (simp add: nth_append)
      also have "\<dots> = rotate w b ! Suc k"
        using kl ltl by (simp add: nth_tl)
      also have "\<dots> = b ! ((w + Suc k) mod n)"
        using k1 lb by (simp add: nth_rotate)
      also have "w + Suc k = w + 1 + k" by simp
      finally have rhs: "(tl (rotate w b) @ [v]) ! k = b ! ((w + 1 + k) mod n)" .
      have "b[w := v] ! ((w + 1 + k) mod n) = b ! ((w + 1 + k) mod n)"
        using ne by simp
      then show ?thesis using lhs rhs by simp
    qed
  qed
  then show ?thesis using wi bu w by (simp add: recent_def b_def)
qed

lemma fold_write_step:
  assumes "rb_inv rb"
  shows "rb_inv (fold (\<lambda>v rb'. write_step rb' v) xs rb)
       \<and> recent (fold (\<lambda>v rb'. write_step rb' v) xs rb) = drop (length xs) (recent rb @ xs)
       \<and> length_rb (fold (\<lambda>v rb'. write_step rb' v) xs rb) = length_rb rb"
  using assms
proof (induction xs arbitrary: rb)
  case Nil
  then show ?case by simp
next
  case (Cons x xs)
  have inv': "rb_inv (write_step rb x)" using Cons.prems by (rule write_step_inv)
  have ne: "recent rb \<noteq> []"
    using Cons.prems by (auto simp: rb_inv_def recent_def)
  have "drop (length xs) ((tl (recent rb) @ [x]) @ xs) = drop (Suc (length xs)) (recent rb @ x # xs)"
    using ne by (cases "recent rb") simp_all
  moreover have "length_rb (write_step rb x) = length_rb rb"
    by (simp add: write_step_def Let_def)
  ultimately show ?case
    using Cons.IH [OF inv'] write_step_recent [OF Cons.prems, of x] by simp
qed


lemma read_loop_nth:
  assumes pos: "0 < length_rb rb" and len: "length (buffer rb) = length_rb rb"
  shows "r < length_rb rb \<Longrightarrow> length t = L \<Longrightarrow> i \<le> L \<Longrightarrow> d = L - i \<Longrightarrow>
         read_loop rb L i (Some (int r)) t =
         take i t @ map (\<lambda>k. buffer rb ! ((r + (k - i)) mod length_rb rb)) [i..<L]"
proof (induction d arbitrary: i r t)
  case 0
  then have "i = L" by simp
  with 0 show ?case by (subst read_loop.simps) simp
next
  case (Suc d)
  define n where "n = length_rb rb"
  have True: "i < L" using Suc.prems by simp
  have nx: "js_rem_idx (js_add_idx (Some (int r)) 1) (int (length_rb rb)) = Some (int (Suc r mod n))"
    using pos by (simp add: js_rem_succ n_def)
  have g: "ta_get (buffer rb) (Some (int r)) = buffer rb ! r"
    using Suc.prems len by simp
  have s: "ta_set t (Some (int i)) (buffer rb ! r) = t[i := buffer rb ! r]"
    using True Suc.prems by simp
  have IH: "read_loop rb L (Suc i) (Some (int (Suc r mod n))) (t[i := buffer rb ! r]) =
       take (Suc i) (t[i := buffer rb ! r]) @
       map (\<lambda>k. buffer rb ! ((Suc r mod n + (k - Suc i)) mod n)) [Suc i..<L]"
    unfolding n_def
    using True Suc.prems pos
    by (intro Suc.IH) simp_all
  have tk: "take (Suc i) (t[i := buffer rb ! r]) = take i t @ [buffer rb ! r]"
    using True Suc.prems by (simp add: take_Suc_conv_app_nth)
  have mp: "map (\<lambda>k. buffer rb ! ((Suc r mod n + (k - Suc i)) mod n)) [Suc i..<L]
          = map (\<lambda>k. buffer rb ! ((r + (k - i)) mod n)) [Suc i..<L]"
  proof (rule map_cong [OF refl])
    fix k assume "k \<in> set [Suc i..<L]"
    then have "Suc i \<le> k" by simp
    then have e: "Suc r + (k - Suc i) = r + (k - i)" by simp
    have "(Suc r mod n + (k - Suc i)) mod n = (Suc r + (k - Suc i)) mod n"
      by (rule mod_add_left_eq)
    also have "\<dots> = (r + (k - i)) mod n" by (simp only: e)
    finally show "buffer rb ! ((Suc r mod n + (k - Suc i)) mod n) = buffer rb ! ((r + (k - i)) mod n)"
      by (simp only:)
  qed
  have up: "[i..<L] = i # [Suc i..<L]" using True by (simp add: upt_conv_Cons)
  have "read_loop rb L i (Some (int r)) t
      = read_loop rb L (Suc i) (Some (int (Suc r mod n))) (t[i := buffer rb ! r])"
    using True nx g s by (subst read_loop.simps) simp
  also note IH
  finally show ?case
    using tk mp Suc.prems(1) by (simp add: up n_def)
qed

lemma read_recent:
  assumes "rb_inv rb" and "length t \<le> length_rb rb"
  shows "snd (read rb t) = drop (length_rb rb - length t) (recent rb)"
proof -
  from assms obtain w where w: "writeIndex rb = Some (int w)" "w < length_rb rb"
    and len: "length (buffer rb) = length_rb rb" and pos: "0 < length_rb rb"
    by (auto simp: rb_inv_def)
  define n where "n = length_rb rb"
  define L where "L = length t"
  define r where "r = (w + n - L) mod n"
  have Ln: "L \<le> n" using assms(2) by (simp add: L_def n_def)
  have "int w + - int L + int n = int (w + n - L)" using Ln by simp
  then have "js_rem (int w + - int L + int n) (int n) = Some (int r)"
    using pos by (simp only: r_def js_rem_nat n_def)
  then have ri: "js_rem_idx (js_add_idx (js_add_idx (writeIndex rb) (- int (length t))) (int (length_rb rb)))
            (int (length_rb rb)) = Some (int r)"
    using w by (simp add: n_def L_def)
  have rn: "r < length_rb rb" using pos by (simp add: r_def n_def)
  have "snd (read rb t) = read_loop rb L 0 (Some (int r)) t"
    using ri by (simp add: read_def Let_def L_def)
  also have "\<dots> = map (\<lambda>k. buffer rb ! ((r + k) mod n)) [0..<L]"
    using read_loop_nth [OF pos len rn, of t L 0 L] by (simp add: L_def n_def)
  also have "\<dots> = drop (n - L) (recent rb)"
  proof (rule nth_equalityI)
    show "length (map (\<lambda>k. buffer rb ! ((r + k) mod n)) [0..<L]) = length (drop (n - L) (recent rb))"
      using w len Ln by (simp add: recent_def n_def)
  next
    fix k assume "k < length (map (\<lambda>k. buffer rb ! ((r + k) mod n)) [0..<L])"
    then have kL: "k < L" by simp
    have "drop (n - L) (recent rb) ! k = rotate w (buffer rb) ! (n - L + k)"
      using w len Ln kL by (simp add: recent_def n_def)
    also have "\<dots> = buffer rb ! ((w + (n - L + k)) mod n)"
      using len Ln kL by (simp add: nth_rotate n_def)
    also have "w + (n - L + k) = (w + n - L) + k" using Ln by simp
    also have "((w + n - L) + k) mod n = (r + k) mod n"
      by (simp add: r_def mod_add_left_eq)
    finally show "map (\<lambda>k. buffer rb ! ((r + k) mod n)) [0..<L] ! k = drop (n - L) (recent rb) ! k"
      using kL by simp
  qed
  finally show ?thesis by (simp add: n_def L_def)
qed


lemma rb_inv_new: "0 < capacity \<Longrightarrow> rb_inv (RotatingAudioBuffer_new capacity)"
  unfolding rb_inv_def RotatingAudioBuffer_new_def
  by (simp add: exI [of _ 0])

lemma recent_new: "recent (RotatingAudioBuffer_new capacity) = replicate capacity (Num 0)"
  by (simp add: recent_def RotatingAudioBuffer_new_def)

lemma read_after_write_all:
  assumes "length target \<le> capacity"
  shows "snd (read (write_all (RotatingAudioBuffer_new capacity) blocks) target) =
         drop (capacity - length target)
           (drop (length (concat blocks)) (replicate capacity (Num 0) @ concat blocks))"
proof (cases "capacity = 0")
  case True
  with assms have "target = []" by simp
  then show ?thesis using True 
    by (simp add: read_def Let_def) (subst read_loop.simps, simp)
next
  case False
  then have inv: "rb_inv (RotatingAudioBuffer_new capacity)" by (simp add: rb_inv_new)
  let ?rb = "write_all (RotatingAudioBuffer_new capacity) blocks"
  have c: "length_rb (RotatingAudioBuffer_new capacity) = capacity"
    by (simp add: RotatingAudioBuffer_new_def)
  have f: "rb_inv ?rb" "recent ?rb = drop (length (concat blocks)) (replicate capacity (Num 0) @ concat blocks)"
       "length_rb ?rb = capacity"
    using fold_write_step [OF inv, of "concat blocks"]
    unfolding write_all_fold recent_new c by blast+
  show ?thesis
    using read_recent [OF f(1)] assms f(2,3) by simp
qed

text \<open>
  C6: after writing N values, N at most the capacity, into a fresh buffer, \<open>read\<close> into
  a target of length N returns exactly these values in order; after writing more values
  than the capacity, \<open>read\<close> into a target of the capacity's length returns the last
  capacity-many values written, oldest first; and \<open>read\<close> leaves the buffer contents and
  the write index as they were.
\<close>

theorem ring_buffer_round_trip:
  "(length (concat blocks) \<le> capacity \<and> length target = length (concat blocks) \<longrightarrow>
      snd (read (write_all (RotatingAudioBuffer_new capacity) blocks) target) = concat blocks)
   \<and> (capacity < length (concat blocks) \<and> length target = capacity \<longrightarrow>
      snd (read (write_all (RotatingAudioBuffer_new capacity) blocks) target)
        = drop (length (concat blocks) - capacity) (concat blocks))
   \<and> buffer (fst (read rb target)) = buffer rb
   \<and> writeIndex (fst (read rb target)) = writeIndex rb"
proof (intro conjI impI)
  assume a: "length (concat blocks) \<le> capacity \<and> length target = length (concat blocks)"
  then have "snd (read (write_all (RotatingAudioBuffer_new capacity) blocks) target) =
         drop (capacity - length target)
           (drop (length (concat blocks)) (replicate capacity (Num 0) @ concat blocks))"
    by (intro read_after_write_all) simp
  also have "\<dots> = concat blocks" using a by simp
  finally show "snd (read (write_all (RotatingAudioBuffer_new capacity) blocks) target) = concat blocks" .
next
  assume a: "capacity < length (concat blocks) \<and> length target = capacity"
  then have "snd (read (write_all (RotatingAudioBuffer_new capacity) blocks) target) =
         drop (capacity - length target)
           (drop (length (concat blocks)) (replicate capacity (Num 0) @ concat blocks))"
    by (intro read_after_write_all) simp
  also have "\<dots> = drop (length (concat blocks) - capacity) (concat blocks)" using a by simp
  finally show "snd (read (write_all (RotatingAudioBuffer_new capacity) blocks) target)
        = drop (length (concat blocks) - capacity) (concat blocks)" .
next
  show "buffer (fst (read rb target)) = buffer rb" by (simp add: read_def Let_def)
next
  show "writeIndex (fst (read rb target)) = writeIndex rb" by (simp add: read_def Let_def)
qed

theorem ring_buffer_round_trip_witness:
  "snd (read (write_all (RotatingAudioBuffer_new 3) [ [Num 1], [Num 2] ]) [Num 0, Num 0])
     = [Num 1, Num 2]
   \<and> snd (read (write_all (RotatingAudioBuffer_new 3) [ [Num 1, Num 2], [Num 3, Num 4, Num 5] ])
            [Num 0, Num 0, Num 0])
     = [Num 3, Num 4, Num 5]"
  using ring_buffer_round_trip [of "[ [Num 1], [Num 2] ]" 3 "[Num 0, Num 0]"]
    ring_buffer_round_trip [of "[ [Num 1, Num 2], [Num 3, Num 4, Num 5] ]" 3 "[Num 0, Num 0, Num 0]"]
  by simp

section \<open>The filter bank and its power snapshot\<close>

lemma pair_new_ok:
  assumes "0 \<le> sr"
  shows "\<exists>p. DelayedIIRBandBoostFilterPair_new m sr g = Inr p \<and> powerMean p = Num 0"
proof -
  have "0 \<le> sr / (440 * 2 powr ((real_of_int m - 69) / 12)) / 4"
    using assms by simp
  then have "round (0::real) \<le> round (sr / (440 * 2 powr ((real_of_int m - 69) / 12)) / 4)"
    by (rule round_mono)
  then have "\<not> round (sr / (440 * 2 powr ((real_of_int m - 69) / 12)) / 4) < 0"
    by simp
  then show ?thesis
    by (simp add: DelayedIIRBandBoostFilterPair_new_def Let_def)
qed

lemma collect_map:
  assumes "\<forall>x\<in>set xs. \<exists>v. f x = Inr v \<and> P v"
  shows "\<exists>vs. collect (map f xs) = Inr vs \<and> length vs = length xs \<and> (\<forall>v\<in>set vs. P v)"
  using assms
proof (induction xs)
  case Nil
  then show ?case by simp
next
  case (Cons x xs)
  then obtain v where v: "f x = Inr v" "P v" by auto
  from Cons obtain vs where vs: "collect (map f xs) = Inr vs" "length vs = length xs" "\<forall>v\<in>set vs. P v"
    by auto
  show ?case using v vs by simp
qed

lemma fold_ta_set:
  "n \<le> length d \<Longrightarrow>
   fold (\<lambda>i d'. ta_set d' (Some (int i)) (h i)) [0..<n] d = map h [0..<n] @ drop n d"
proof (induction n)
  case 0
  then show ?case by simp
next
  case (Suc n)
  then have n: "n < length d" by simp
  have "fold (\<lambda>i d'. ta_set d' (Some (int i)) (h i)) [0..<Suc n] d
      = ta_set (map h [0..<n] @ drop n d) (Some (int n)) (h n)"
    using Suc by simp
  also have "\<dots> = (map h [0..<n] @ drop n d)[n := h n]"
    using n by simp
  also have "\<dots> = map h [0..<n] @ (drop n d)[0 := h n]"
    by (simp add: list_update_append)
  also have "drop n d = d ! n # drop (Suc n) d"
    using n by (simp add: Cons_nth_drop_Suc)
  finally show ?case by simp
qed

lemma fill_power_map:
  assumes "length fs = 88" "length d = 88"
  shows "fill_power fs d = Inr (map (\<lambda>i. getInstantPower (fs ! i)) [0..<88])"
  using assms fold_ta_set [of 88 d "\<lambda>i. getInstantPower (fs ! i)"]
  by (simp add: fill_power_def)

lemma EarProcessor_new_ok:
  assumes "0 \<le> sr"
  shows "\<exists>s. EarProcessor_new sr = Inr s \<and> length (filters s) = 88
             \<and> (\<forall>p\<in>set (filters s). powerMean p = Num 0)"
proof -
  have "\<forall>i\<in>set [0..<88::nat]. \<exists>p.
          (let midiNoteNumber = int i + 21
           in DelayedIIRBandBoostFilterPair_new midiNoteNumber sr 6) = Inr p \<and> powerMean p = Num 0"
    using pair_new_ok [OF assms] by (simp add: Let_def)
  from collect_map [OF this] obtain fs where
    "collect (map (\<lambda>i. let midiNoteNumber = int i + 21
                       in DelayedIIRBandBoostFilterPair_new midiNoteNumber sr 6) [0..<88]) = Inr fs"
    "length fs = 88" "\<forall>p\<in>set fs. powerMean p = Num 0"
    by auto
  then show ?thesis by (simp add: EarProcessor_new_def)
qed

lemma handler_reply:
  assumes "length (filters s) = 88" and "length buf = 88"
  shows "EarProcessor_onmessage s
           \<lparr>data_type = t, data_message = Some ''get-data'',
            data_buffer = Some (ArrayBuffer buf), data_requestId = requestId\<rparr>
         = Inr [\<lparr>data_type = None, data_message = Some ''data'',
                 data_buffer = Some (ArrayBuffer (map (\<lambda>i. powerMean (filters s ! i)) [0..<88])),
                 data_requestId = requestId\<rparr>]"
proof -
  have "fill_power (filters s) buf = Inr (map (\<lambda>i. getInstantPower (filters s ! i)) [0..<88])"
    using assms by (rule fill_power_map)
  then show ?thesis
    by (simp add: EarProcessor_onmessage_def getInstantPower_def)
qed

text \<open>
  C10: \<open>getInstantPower\<close> returns \<open>powerMean\<close> unchanged; the handler of a power
  snapshot request, in any state of the 88 pairs, stores \<open>filters[i].getInstantPower()\<close>
  in slot \<open>i\<close> of the 88-float buffer for \<open>i\<close> from 0 to 87 and posts it back with the
  request id; every pair is built with \<open>powerMean = 0\<close>, so a request issued before any
  audio sample was processed is answered with 88 values, all 0.
\<close>

theorem power_snapshot_before_audio:
  assumes "0 < sampleRate"
  shows "getInstantPower p = powerMean p
       \<and> (length (filters s') = 88 \<and> length buf = 88 \<longrightarrow>
            EarProcessor_onmessage s'
              \<lparr>data_type = t, data_message = Some ''get-data'',
               data_buffer = Some (ArrayBuffer buf), data_requestId = requestId\<rparr>
            = Inr [\<lparr>data_type = None, data_message = Some ''data'',
                    data_buffer = Some (ArrayBuffer
                      (map (\<lambda>i. getInstantPower (filters s' ! i)) [0..<88])),
                    data_requestId = requestId\<rparr>])
       \<and> (\<exists>s. EarProcessor_new sampleRate = Inr s
             \<and> length (filters s) = 88
             \<and> (\<forall>i<88. powerMean (filters s ! i) = Num 0)
             \<and> (length buf = 88 \<longrightarrow>
                  EarProcessor_onmessage s
                    \<lparr>data_type = t, data_message = Some ''get-data'',
                     data_buffer = Some (ArrayBuffer buf), data_requestId = requestId\<rparr>
                  = Inr [\<lparr>data_type = None, data_message = Some ''data'',
                          data_buffer = Some (ArrayBuffer (replicate 88 (Num 0))),
                          data_requestId = requestId\<rparr>]))"
proof (intro conjI impI)
  show "getInstantPower p = powerMean p" by (simp add: getInstantPower_def)
next
  assume "length (filters s') = 88 \<and> length buf = 88"
  then show "EarProcessor_onmessage s'
              \<lparr>data_type = t, data_message = Some ''get-data'',
               data_buffer = Some (ArrayBuffer buf), data_requestId = requestId\<rparr>
            = Inr [\<lparr>data_type = None, data_message = Some ''data'',
                    data_buffer = Some (ArrayBuffer
                      (map (\<lambda>i. getInstantPower (filters s' ! i)) [0..<88])),
                    data_requestId = requestId\<rparr>]"
    by (simp add: handler_reply getInstantPower_def)
next
  from assms have "0 \<le> sampleRate" by simp
  from EarProcessor_new_ok [OF this] obtain s where
    s: "EarProcessor_new sampleRate = Inr s" "length (filters s) = 88"
       "\<forall>p\<in>set (filters s). powerMean p = Num 0"
    by blast
  have z: "\<forall>i<88. powerMean (filters s ! i) = Num 0" using s(2,3) by simp
  have "map (\<lambda>i. powerMean (filters s ! i)) [0..<88] = map (\<lambda>i. Num 0) [0..<88]"
    using z by (intro map_cong) simp_all
  also have "\<dots> = replicate 88 (Num 0)"
    by (simp add: map_replicate_const)
  finally have m: "map (\<lambda>i. powerMean (filters s ! i)) [0..<88] = replicate 88 (Num 0)" .
  have "length buf = 88 \<longrightarrow>
          EarProcessor_onmessage s
            \<lparr>data_type = t, data_message = Some ''get-data'',
             data_buffer = Some (ArrayBuffer buf), data_requestId = requestId\<rparr>
          = Inr [\<lparr>data_type = None, data_message = Some ''data'',
                  data_buffer = Some (ArrayBuffer (replicate 88 (Num 0))),
                  data_requestId = requestId\<rparr>]"
    using handler_reply [OF s(2), of buf t requestId] m by simp
  with s(1,2) z show "\<exists>s. EarProcessor_new sampleRate = Inr s
             \<and> length (filters s) = 88
             \<and> (\<forall>i<88. powerMean (filters s ! i) = Num 0)
             \<and> (length buf = 88 \<longrightarrow>
                  EarProcessor_onmessage s
                    \<lparr>data_type = t, data_message = Some ''get-data'',
                     data_buffer = Some (ArrayBuffer buf), data_requestId = requestId\<rparr>
                  = Inr [\<lparr>data_type = None, data_message = Some ''data'',
                          data_buffer = Some (ArrayBuffer (replicate 88 (Num 0))),
                          data_requestId = requestId\<rparr>])"
    by blast
qed


theorem power_snapshot_before_audio_witness:
  "(0::real) < 44100
   \<and> EarProcessor_onmessage
        \<lparr>filters = map (\<lambda>i. \<lparr>pair_Fs = 44100, pair_f0 = 440, pair_peakGainDB = 6,
                                filter1 = IIRBandBoostFilter_new 69 44100 6,
                                filter2 = IIRBandBoostFilter_new 69 44100 6,
                                filter1Out = Num 0, filter2Out = Num 0,
                                delayBuffer = replicate 25 (Num 0), delayIndex = Some 0,
                                powerMean = Num (real i)\<rparr>) [0..<88]\<rparr>
        \<lparr>data_type = None, data_message = Some ''get-data'',
         data_buffer = Some (ArrayBuffer (replicate 88 (Num 0))), data_requestId = Some 7\<rparr>
      = Inr [\<lparr>data_type = None, data_message = Some ''data'',
              data_buffer = Some (ArrayBuffer (map (\<lambda>i. Num (real i)) [0..<88])),
              data_requestId = Some 7\<rparr>]
   \<and> (\<exists>s. EarProcessor_new 44100 = Inr s
        \<and> EarProcessor_onmessage s
             \<lparr>data_type = None, data_message = Some ''get-data'',
              data_buffer = Some (ArrayBuffer (replicate 88 (Num 0))), data_requestId = Some 7\<rparr>
           = Inr [\<lparr>data_type = None, data_message = Some ''data'',
                   data_buffer = Some (ArrayBuffer (replicate 88 (Num 0))),
                   data_requestId = Some 7\<rparr>])"
proof -
  define mk where "mk = (\<lambda>i::nat. \<lparr>pair_Fs = 44100, pair_f0 = 440, pair_peakGainDB = 6,
                                filter1 = IIRBandBoostFilter_new 69 44100 6,
                                filter2 = IIRBandBoostFilter_new 69 44100 6,
                                filter1Out = Num 0, filter2Out = Num 0,
                                delayBuffer = replicate 25 (Num 0), delayIndex = Some 0,
                                powerMean = Num (real i)\<rparr>)"
  define s0 where "s0 = \<lparr>filters = map mk [0..<88]\<rparr>"
  have h: "(0::real) < 44100" by simp
  have l: "length (filters s0) = 88 \<and> length (replicate 88 (Num 0)) = 88"
    by (simp add: s0_def)
  have g: "map (\<lambda>i. getInstantPower (filters s0 ! i)) [0..<88] = map (\<lambda>i. Num (real i)) [0..<88]"
  proof (rule map_cong [OF refl])
    fix i assume "i \<in> set [0..<88::nat]"
    then have i: "i < 88" by simp
    have "filters s0 ! i = mk i" using i by (simp add: s0_def)
    moreover have "getInstantPower (mk i) = powerMean (mk i)"
      using power_snapshot_before_audio [OF h, of "mk i"] by blast
    ultimately show "getInstantPower (filters s0 ! i) = Num (real i)"
      by (simp add: mk_def)
  qed
  from power_snapshot_before_audio [OF h, of "mk 0" s0 "replicate 88 (Num 0)" None "Some 7"] l g
  show ?thesis unfolding s0_def mk_def by auto
qed

section \<open>The delay line of a filter pair\<close>

text \<open>
  At a sample rate of 8000 Hz the quarter wavelength of note 108 (4186 Hz) is 0.48
  samples, which \<open>Math.round\<close> takes to 0.
\<close>

lemma delay_108_8000:
  "round ((8000::real) / (440 * 2 powr ((real_of_int 108 - 69) / 12)) / 4) = 0"
proof -
  define c :: real where "c = 2 powr (13 / 4)"
  have e: "(real_of_int 108 - 69) / 12 = (13 / 4 :: real)" by simp
  have c: "9.1 < c" unfolding c_def by (rule two_powr_13_4)
  have pos: "0 < 8000 / (440 * c) / 4" using c by simp
  have "8000 / (440 * c) / 4 = (50 / 11) / c" by simp
  also have "\<dots> < (50 / 11) / 9.1" using c by (intro divide_strict_left_mono) simp_all
  also have "\<dots> < 1 / 2" by simp
  finally have lt: "8000 / (440 * c) / 4 < 1 / 2" .
  define v where "v = 8000 / (440 * c) / 4"
  have "0 \<le> v + 1 / 2" "v + 1 / 2 < 1"
    using pos lt unfolding v_def by linarith+
  then have "\<lfloor>v + 1 / 2\<rfloor> = 0" by (simp only: floor_eq_iff) simp
  then have "round (8000 / (440 * c) / 4) = 0"
    unfolding round_def v_def .
  then show ?thesis unfolding e c_def .
qed

lemma pair_new_108_8000:
  "\<exists>p. DelayedIIRBandBoostFilterPair_new 108 8000 6 = Inr p \<and> delayBuffer p = []
       \<and> delayIndex p = Some 0 \<and> powerMean p = Num 0"
  using delay_108_8000
  by (simp add: DelayedIIRBandBoostFilterPair_new_def Let_def del: of_int_numeral)

lemma process_empty_delay:
  assumes "delayBuffer p = []"
  shows "delayIndex (fst (DelayedIIRBandBoostFilterPair_process p x)) = None"
    and "powerMean (fst (DelayedIIRBandBoostFilterPair_process p x)) = NaN"
    and "delayBuffer (fst (DelayedIIRBandBoostFilterPair_process p x)) = []"
proof -
  have g: "ta_get [] (delayIndex p) = NaN" by (cases "delayIndex p") auto
  have s: "ta_set [] (delayIndex p) x = []" by (cases "delayIndex p") simp_all
  have r: "js_rem_idx (js_add_idx (delayIndex p) 1) 0 = None"
    by (cases "delayIndex p") (simp_all add: js_rem_def)
  have n: "snd (IIRBandBoostFilter_process f NaN) = NaN" for f
    by (simp add: IIRBandBoostFilter_process_def Let_def)
  have m: "a * a + NaN * NaN = NaN" for a :: jsnum by (cases a) simp_all
  have q: "a + b * NaN = NaN" for a b :: jsnum by (cases a; cases b) simp_all
  show "delayIndex (fst (DelayedIIRBandBoostFilterPair_process p x)) = None"
    using assms r s by (simp add: DelayedIIRBandBoostFilterPair_process_def Let_def split_beta)
  show "powerMean (fst (DelayedIIRBandBoostFilterPair_process p x)) = NaN"
    using assms g n m q by (simp add: DelayedIIRBandBoostFilterPair_process_def Let_def split_beta)
  show "delayBuffer (fst (DelayedIIRBandBoostFilterPair_process p x)) = []"
    using assms s by (simp add: DelayedIIRBandBoostFilterPair_process_def Let_def split_beta)
qed

text \<open>
  C2: the delay buffer of a pair has \<open>round ((sampleRate / f0) / 4)\<close> slots, at least
  one, so that advancing the cursor modulo the length is well defined. The constructor
  does not clamp: for note 108 at 8000 Hz the buffer has no slot, and the first call of
  \<open>process\<close> leaves the cursor at \<open>1 % 0\<close>, which is \<open>NaN\<close>.
\<close>

theorem delay_buffer_empty_at_note_108_8000:
  "\<exists>p. DelayedIIRBandBoostFilterPair_new 108 8000 6 = Inr p
      \<and> length (delayBuffer p) = 0
      \<and> delayIndex (fst (DelayedIIRBandBoostFilterPair_process p (Num (1/2)))) = None"
proof -
  from pair_new_108_8000 obtain p where
    p: "DelayedIIRBandBoostFilterPair_new 108 8000 6 = Inr p" "delayBuffer p = []"
    by blast
  from p(2) have "delayIndex (fst (DelayedIIRBandBoostFilterPair_process p (Num (1/2)))) = None"
    by (rule process_empty_delay(1))
  with p show ?thesis by simp
qed

text \<open>
  The length of the delay buffer is the rounded quarter wavelength, unclamped. A pair
  whose delay buffer has a slot keeps its power at or above 0 on every stream of real
  samples.
\<close>

lemma delay_length_formula:
  assumes "DelayedIIRBandBoostFilterPair_new m sr g = Inr p"
  shows "int (length (delayBuffer p)) = round ((sr / (440 * 2 powr ((real_of_int m - 69) / 12))) / 4)"
  using assms
  by (auto simp: DelayedIIRBandBoostFilterPair_new_def Let_def split: if_splits)

lemma filter_ok_new: "filter_ok (IIRBandBoostFilter_new m sr g)"
  by (simp add: filter_ok_def IIRBandBoostFilter_new_def Let_def split_beta)

lemma filter_ok_process:
  assumes "filter_ok flt"
  shows "filter_ok (fst (IIRBandBoostFilter_process flt (Num x)))"
    and "\<exists>y. snd (IIRBandBoostFilter_process flt (Num x)) = Num y"
  using assms by (auto simp: filter_ok_def IIRBandBoostFilter_process_def Let_def)

lemma pair_ok_process:
  assumes "pair_ok p"
  shows "pair_ok (fst (DelayedIIRBandBoostFilterPair_process p (Num x)))"
proof -
  from assms obtain i m where i: "delayIndex p = Some (int i)" "i < length (delayBuffer p)"
    and m: "powerMean p = Num m" "0 \<le> m"
    and f: "filter_ok (filter1 p)" "filter_ok (filter2 p)"
    and nn: "NaN \<notin> set (delayBuffer p)"
    by (auto simp: pair_ok_def)
  have "delayBuffer p ! i \<noteq> NaN" using nn i(2) by (metis nth_mem)
  then obtain d where d: "delayBuffer p ! i = Num d" by (cases "delayBuffer p ! i") simp_all
  have g: "ta_get (delayBuffer p) (delayIndex p) = Num d" using i d by simp
  have s: "ta_set (delayBuffer p) (delayIndex p) (Num x) = (delayBuffer p)[i := Num x]"
    using i by simp
  obtain f1 o1 where p1: "IIRBandBoostFilter_process (filter1 p) (Num x) = (f1, Num o1)"
    and f1: "filter_ok f1"
    using filter_ok_process [OF f(1), of x]
    by (cases "IIRBandBoostFilter_process (filter1 p) (Num x)") auto
  obtain f2 o2 where p2: "IIRBandBoostFilter_process (filter2 p) (Num d) = (f2, Num o2)"
    and f2: "filter_ok f2"
    using filter_ok_process [OF f(2), of d]
    by (cases "IIRBandBoostFilter_process (filter2 p) (Num d)") auto
  have pos: "0 < length (delayBuffer p)" using i(2) by (cases "delayBuffer p") simp_all
  have r: "js_rem_idx (js_add_idx (delayIndex p) 1) (int (length ((delayBuffer p)[i := Num x])))
           = Some (int (Suc i mod length (delayBuffer p)))"
    using i pos by (simp add: js_rem_succ)
  define p' where "p' = fst (DelayedIIRBandBoostFilterPair_process p (Num x))"
  have e: "filter1 p' = f1" "filter2 p' = f2"
    "delayBuffer p' = (delayBuffer p)[i := Num x]"
    "delayIndex p' = Some (int (Suc i mod length (delayBuffer p)))"
    "powerMean p' = Num (95 / 100 * m + (1 - 95 / 100) * (o1 * o1 + o2 * o2))"
    unfolding p'_def
    using p1 p2 g s r m
    by (simp_all add: DelayedIIRBandBoostFilterPair_process_def Let_def)
  have nn': "NaN \<notin> set ((delayBuffer p)[i := Num x])"
    using nn by (auto dest: set_update_subset_insert [THEN subsetD])
  have "0 \<le> 95 / 100 * m + (1 - 95 / 100) * (o1 * o1 + o2 * o2)"
    using m(2) by simp
  then show ?thesis
    unfolding p'_def [symmetric] pair_ok_def
    using e f1 f2 nn' pos by simp
qed

lemma pair_ok_feed: "pair_ok p \<Longrightarrow> pair_ok (feed_pair p xs)"
  unfolding feed_pair_def
  by (induction xs arbitrary: p) (simp_all add: pair_ok_process)

lemma pair_ok_new:
  assumes "DelayedIIRBandBoostFilterPair_new m sr g = Inr p" and "delayBuffer p \<noteq> []"
  shows "pair_ok p"
proof -
  from assms(1) have
    "p = \<lparr>pair_Fs = sr, pair_f0 = 440 * 2 powr ((real_of_int m - 69) / 12), pair_peakGainDB = g,
          filter1 = IIRBandBoostFilter_new m sr g, filter2 = IIRBandBoostFilter_new m sr g,
          filter1Out = Num 0, filter2Out = Num 0,
          delayBuffer = replicate (nat (round (sr / (440 * 2 powr ((real_of_int m - 69) / 12)) / 4))) (Num 0),
          delayIndex = Some 0, powerMean = Num 0\<rparr>"
    by (simp add: DelayedIIRBandBoostFilterPair_new_def Let_def split: if_splits)
  then have "filter1 p = IIRBandBoostFilter_new m sr g" "filter2 p = IIRBandBoostFilter_new m sr g"
    "set (delayBuffer p) \<subseteq> {Num 0}" "delayIndex p = Some (int 0)" "powerMean p = Num 0"
    by auto
  then show ?thesis
    using assms(2) unfolding pair_ok_def by (auto simp: filter_ok_new)
qed

lemma power_nonneg_with_delay:
  assumes "DelayedIIRBandBoostFilterPair_new m sr g = Inr p" and "delayBuffer p \<noteq> []"
  shows "js_ge0 (getInstantPower (feed_pair p xs))"
proof -
  have "pair_ok (feed_pair p xs)"
    using assms by (intro pair_ok_feed pair_ok_new)
  then show ?thesis by (auto simp: pair_ok_def getInstantPower_def)
qed

text \<open>
  C8: \<open>getInstantPower()\<close> is at least 0 at all times. With the empty delay buffer of
  note 108 at 8000 Hz the second filter is fed \<open>undefined\<close>, and after one sample the
  smoothed power is \<open>NaN\<close>, for which \<open>>= 0\<close> is false.
\<close>

theorem power_not_a_number_at_note_108_8000:
  "\<exists>p. DelayedIIRBandBoostFilterPair_new 108 8000 6 = Inr p
      \<and> getInstantPower (fst (DelayedIIRBandBoostFilterPair_process p (Num (1/2)))) = NaN
      \<and> \<not> js_ge0 (getInstantPower (fst (DelayedIIRBandBoostFilterPair_process p (Num (1/2)))))"
proof -
  from pair_new_108_8000 obtain p where
    p: "DelayedIIRBandBoostFilterPair_new 108 8000 6 = Inr p" "delayBuffer p = []"
    by blast
  from p(2) have "powerMean (fst (DelayedIIRBandBoostFilterPair_process p (Num (1/2)))) = NaN"
    by (rule process_empty_delay(2))
  with p show ?thesis by (simp add: getInstantPower_def)
qed

section \<open>Processing an audio block\<close>

text \<open>
  \<open>EarProcessor.process\<close> hands every sample of the first channel, in order, to the 88
  pairs in turn: afterwards each pair has consumed exactly the block.
\<close>

lemma fold_list_update_map:
  "n \<le> length fs \<Longrightarrow>
   fold (\<lambda>i fs'. fs'[i := F (fs' ! i)]) [0..<n] fs = map F (take n fs) @ drop n fs"
proof (induction n)
  case 0
  then show ?case by simp
next
  case (Suc n)
  then have n: "n < length fs" by simp
  have d: "drop n fs = fs ! n # drop (Suc n) fs"
    using n by (simp add: Cons_nth_drop_Suc)
  have "fold (\<lambda>i fs'. fs'[i := F (fs' ! i)]) [0..<Suc n] fs
      = (map F (take n fs) @ drop n fs)[n := F ((map F (take n fs) @ drop n fs) ! n)]"
    using Suc by simp
  also have "(map F (take n fs) @ drop n fs) ! n = fs ! n"
    using n by (simp add: nth_append)
  also have "(map F (take n fs) @ drop n fs)[n := F (fs ! n)]
      = map F (take n fs) @ (drop n fs)[0 := F (fs ! n)]"
    using n by (simp add: list_update_append)
  also have "\<dots> = map F (take n fs) @ F (fs ! n) # drop (Suc n) fs"
    by (simp add: d)
  also have "\<dots> = map F (take (Suc n) fs) @ drop (Suc n) fs"
    using n by (simp add: take_Suc_conv_app_nth)
  finally show ?case .
qed

lemma process_sample_map:
  assumes "length fs = 88"
  shows "process_sample fs x
         = Inr (map (\<lambda>p. fst (DelayedIIRBandBoostFilterPair_process p x)) fs)"
  using assms
    fold_list_update_map [of 88 fs "\<lambda>p. fst (DelayedIIRBandBoostFilterPair_process p x)"]
  by (simp add: process_sample_def)

lemma process_samples_map:
  assumes "length fs = 88"
  shows "process_samples fs xs
         = Inr (map (\<lambda>p. fold (\<lambda>x p'. fst (DelayedIIRBandBoostFilterPair_process p' x)) xs p) fs)"
  using assms
proof (induction xs arbitrary: fs)
  case Nil
  then show ?case by simp
next
  case (Cons x xs)
  have l: "length (map (\<lambda>p. fst (DelayedIIRBandBoostFilterPair_process p x)) fs) = 88"
    using Cons.prems by simp
  show ?case
    using Cons.IH [OF l] Cons.prems by (simp add: process_sample_map comp_def)
qed

lemma EarProcessor_process_feeds_all:
  assumes "length (filters s) = 88"
  shows "EarProcessor_process s (((x # xs) # channels) # inputs)
         = Inr (s\<lparr>filters :=
                    map (\<lambda>p. fold (\<lambda>v p'. fst (DelayedIIRBandBoostFilterPair_process p' v)) (x # xs) p)
                        (filters s)\<rparr>, True)"
  using process_samples_map [OF assms, of "x # xs"]
  by (simp add: EarProcessor_process_def)

text \<open>
  \<open>OscWorker.process\<close> passes \<open>input[0][0]\<close>, a number, to \<open>write\<close>, whose loop bound
  \<open>data.length\<close> is then \<open>undefined\<close>: nothing is written.
\<close>

lemma write_rb_number: "write_rb rb (JNumber x) = rb"
  by (simp add: write_rb_def) (subst write_loop.simps, simp)

lemma OscWorker_process_writes_nothing:
  "OscWorker_process w (((x # xs) # channels) # inputs) = Inr (w, True)"
  by (simp add: OscWorker_process_def write_rb_number)

text \<open>
  C1: a call with a non-empty input channel feeds every sample of the block, in order,
  to the ring buffer's \<open>write\<close> and to the 88 estimators. The estimators receive the
  block (\<open>EarProcessor_process_feeds_all\<close>), the ring buffer does not: after a block of
  two samples the worker and its buffer are as before, while \<open>write\<close> on the block
  would have stored both samples and moved the write index to 2.
\<close>

theorem osc_worker_block_not_written:
  "OscWorker_process (OscWorker_new 44100) [ [ [Num (1/2), Num (1/4)] ] ]
     = Inr (OscWorker_new 44100, True)
   \<and> writeIndex (rotatingBuffer (OscWorker_new 44100)) = Some 0
   \<and> writeIndex (write_rb (rotatingBuffer (OscWorker_new 44100))
                            (JFloat32Array [Num (1/2), Num (1/4)])) = Some 2
   \<and> take 2 (buffer (write_rb (rotatingBuffer (OscWorker_new 44100))
                            (JFloat32Array [Num (1/2), Num (1/4)]))) = [Num (1/2), Num (1/4)]
   \<and> take 2 (buffer (rotatingBuffer (OscWorker_new 44100))) = [Num 0, Num 0]"
proof -
  have a: "OscWorker_process (OscWorker_new 44100) [ [ [Num (1/2), Num (1/4)] ] ]
     = Inr (OscWorker_new 44100, True)"
    by (rule OscWorker_process_writes_nothing)
  have b: "write_rb (rotatingBuffer (OscWorker_new 44100)) (JFloat32Array [Num (1/2), Num (1/4)])
     = \<lparr>length_rb = 44100,
        buffer = (replicate 44100 (Num 0))[0 := Num (1/2), 1 := Num (1/4)],
        writeIndex = Some 2\<rparr>"
    by (simp add: write_rb_fold write_step_def OscWorker_new_def RotatingAudioBuffer_new_def
        js_rem_def Let_def)
  have c: "take 2 ((replicate 44100 (Num 0))[0 := Num (1/2), 1 := Num (1/4)])
           = [Num (1/2), Num (1/4)]"
    by (simp add: take_Suc_conv_app_nth numeral_2_eq_2)
  have d: "take 2 (replicate 44100 (Num 0)) = [Num 0, Num 0]"
    by (simp add: take_Suc_conv_app_nth numeral_2_eq_2)
  show ?thesis using a b c d
    by (simp add: OscWorker_new_def RotatingAudioBuffer_new_def)
qed


section \<open>The waveform snapshot\<close>

text \<open>
  \<open>OscWorker.handleMessage\<close> looks at \<open>event.data.type\<close>, needs a buffer with a positive
  \<open>length\<close>, and its reply carries neither \<open>message\<close> nor \<open>requestId\<close>.
\<close>

lemma handleMessage_needs_type:
  "data_type e \<noteq> Some ''dump'' \<Longrightarrow> OscWorker_handleMessage w e = (w, [])"
  by (simp add: OscWorker_handleMessage_def)

lemma handleMessage_ArrayBuffer:
  "data_buffer e = Some (ArrayBuffer xs) \<Longrightarrow> OscWorker_handleMessage w e = (w, [])"
  by (simp add: OscWorker_handleMessage_def Let_def)

lemma handleMessage_reply_without_id:
  "reply \<in> set (snd (OscWorker_handleMessage w e)) \<Longrightarrow>
   data_requestId reply = None \<and> data_message reply = None"
  by (auto simp: OscWorker_handleMessage_def Let_def split: if_splits prod.splits)

text \<open>
  C3: every waveform snapshot request that carries a request id and a non-empty buffer
  gets exactly one reply with the same request id, its buffer filled by \<open>read\<close>. The
  request \<open>_getOscData\<close> posts names its kind in \<open>message\<close>, not in \<open>type\<close>, and its
  buffer is an \<open>ArrayBuffer\<close>: the worker posts no reply to it, nor would it with the kind
  in \<open>type\<close>.
\<close>

theorem dump_request_gets_no_reply:
  "getOscData \<lparr>osc_pendingRequests = [], osc_requestIdCounter = 0\<rparr> None
     = (\<lparr>osc_pendingRequests = [(0, 0)], osc_requestIdCounter = 1\<rparr>,
        [PostMessage \<lparr>data_type = None, data_message = Some ''dump'',
                       data_buffer = Some (ArrayBuffer (replicate 128 (Num 0))),
                       data_requestId = Some 0\<rparr>])
   \<and> OscWorker_handleMessage (OscWorker_new 44100)
        \<lparr>data_type = None, data_message = Some ''dump'',
         data_buffer = Some (ArrayBuffer (replicate 128 (Num 0))),
         data_requestId = Some 0\<rparr>
     = (OscWorker_new 44100, [])
   \<and> OscWorker_handleMessage (OscWorker_new 44100)
        \<lparr>data_type = Some ''dump'', data_message = Some ''dump'',
         data_buffer = Some (ArrayBuffer (replicate 128 (Num 0))),
         data_requestId = Some 0\<rparr>
     = (OscWorker_new 44100, [])"
  by (simp add: getOscData_def OscWorker_handleMessage_def Let_def)

section \<open>A request whose message cannot be sent\<close>

text \<open>
  When \<open>postMessage\<close> throws, \<open>getEarPowerData\<close> removes the pending entry and rejects
  the promise.
\<close>

lemma getEarPowerData_throw_rejects:
  assumes "requestIdCounter r \<notin> fst ` set (pendingRequests r)"
  shows "getEarPowerData r (Some err)
         = (r\<lparr>requestIdCounter := requestIdCounter r + 1\<rparr>, [Reject (requestIdCounter r) err])"
proof -
  have "AList.delete (requestIdCounter r)
          (AList.update (requestIdCounter r) (requestIdCounter r) (pendingRequests r))
        = pendingRequests r"
    using assms by (simp add: delete_update_same delete_id)
  then show ?thesis by (simp add: getEarPowerData_def Let_def)
qed

lemma getOscData_throw_general:
  "snd (getOscData r (Some err)) = []
   \<and> map_of (osc_pendingRequests (fst (getOscData r (Some err)))) (osc_requestIdCounter r)
       = Some (osc_requestIdCounter r)"
  by (simp add: getOscData_def Let_def update_conv')

text \<open>
  C4: for both kinds of snapshot request, if posting the request throws, the promise of
  the request is rejected at once and its pending entry removed. \<open>getEarPowerData\<close> does
  so (\<open>getEarPowerData_throw_rejects\<close>); \<open>_getOscData\<close> catches the error and does
  nothing: the entry stays in the map and \<open>reject\<close> is never called.
\<close>

theorem getOscData_throw_leaves_request_pending:
  "getOscData \<lparr>osc_pendingRequests = [], osc_requestIdCounter = 0\<rparr> (Some ''DataCloneError'')
     = (\<lparr>osc_pendingRequests = [(0, 0)], osc_requestIdCounter = 1\<rparr>, [])"
  by (simp add: getOscData_def Let_def)

section \<open>The power snapshot requester\<close>

lemma resolved_count_append [simp]:
  "resolved_count p (a @ b) = resolved_count p a + resolved_count p b"
  by (simp add: resolved_count_def)

lemma rejected_count_append [simp]:
  "rejected_count p (a @ b) = rejected_count p a + rejected_count p b"
  by (simp add: rejected_count_def)

lemma counts_single [simp]:
  "resolved_count p [Resolve q buf] = (if q = p then 1 else 0)"
  "resolved_count p [Reject q err] = 0"
  "resolved_count p [Warn s n] = 0"
  "resolved_count p [Log s] = 0"
  "resolved_count p [PostMessage m] = 0"
  "rejected_count p [Resolve q buf] = 0"
  "rejected_count p [Reject q err] = (if q = p then 1 else 0)"
  "rejected_count p [Warn s n] = 0"
  "rejected_count p [Log s] = 0"
  "rejected_count p [PostMessage m] = 0"
  "resolved_count p [] = 0"
  "rejected_count p [] = 0"
  by (simp_all add: resolved_count_def rejected_count_def)

lemma counts_Reject_Cons [simp]:
  "resolved_count p (Reject q err # es) = resolved_count p es"
  "rejected_count p (Reject q err # es) = (if q = p then 1 else 0) + rejected_count p es"
  by (simp_all add: resolved_count_def rejected_count_def)

lemma resolved_count_rejections:
  "resolved_count p (map (\<lambda>(k, h). Reject h msg) ps) = 0"
  by (induction ps) (simp_all add: split_beta)

lemma rejected_count_rejections:
  assumes "distinct (map fst ps)" and "\<forall>(k, h) \<in> set ps. h = k"
  shows "rejected_count p (map (\<lambda>(k, h). Reject h msg) ps) = (if p \<in> fst ` set ps then 1 else 0)"
  using assms
proof (induction ps)
  case Nil
  then show ?case by simp
next
  case (Cons a ps)
  obtain k h where a: "a = (k, h)" by (cases a)
  with Cons.prems have hk: "h = k" and nk: "k \<notin> fst ` set ps" by auto
  have IH: "rejected_count p (map (\<lambda>(k, h). Reject h msg) ps) = (if p \<in> fst ` set ps then 1 else 0)"
    using Cons by simp
  show ?case using IH nk a hk by auto
qed

lemma update_fresh: "k \<notin> fst ` set al \<Longrightarrow> AList.update k v al = al @ [(k, v)]"
  by (induction al) auto

lemma inv_new: "requester_inv EarDataRequester_new []"
  by (simp add: requester_inv_def EarDataRequester_new_def)

lemma inv_fresh:
  assumes "requester_inv r effs"
  shows "requestIdCounter r \<notin> fst ` set (pendingRequests r)"
  using assms by (fastforce simp: requester_inv_def)

lemma inv_getEarPowerData:
  assumes "requester_inv r effs" and "getEarPowerData r thrown = (r', new)"
  shows "requester_inv r' (effs @ new)"
proof -
  let ?c = "requestIdCounter r"
  have fresh: "?c \<notin> fst ` set (pendingRequests r)" using assms(1) by (rule inv_fresh)
  from assms(1) have d: "distinct (map fst (pendingRequests r))"
    and hk: "\<forall>(k, h) \<in> set (pendingRequests r). h = k \<and> k < ?c"
    and cnt: "\<And>p. resolved_count p effs + rejected_count p effs =
          (if p < ?c \<and> p \<notin> fst ` set (pendingRequests r) then 1 else 0)"
    by (simp_all add: requester_inv_def)
  show ?thesis
  proof (cases thrown)
    case None
    have upd: "AList.update ?c ?c (pendingRequests r) = pendingRequests r @ [(?c, ?c)]"
      using fresh by (rule update_fresh)
    have r': "pendingRequests r' = pendingRequests r @ [(?c, ?c)]" "requestIdCounter r' = ?c + 1"
      and new: "resolved_count p new = 0" "rejected_count p new = 0" for p
      using assms(2) None upd by (auto simp: getEarPowerData_def Let_def)
    show ?thesis
      unfolding requester_inv_def
    proof (intro conjI allI)
      show "distinct (map fst (pendingRequests r'))" using d fresh r' by simp
      show "\<forall>(k, h)\<in>set (pendingRequests r'). h = k \<and> k < requestIdCounter r'"
        using hk r' by auto
      fix p
      show "resolved_count p (effs @ new) + rejected_count p (effs @ new) =
          (if p < requestIdCounter r' \<and> p \<notin> fst ` set (pendingRequests r') then 1 else 0)"
        using cnt [of p] new [of p] r' fresh
        by (cases "p \<in> fst ` set (pendingRequests r)"; cases "p = ?c")
           (simp_all add: less_Suc_eq)
    qed
  next
    case (Some err)
    have "AList.delete ?c (AList.update ?c ?c (pendingRequests r)) = pendingRequests r"
      using fresh by (simp add: delete_update_same)
    then have r': "pendingRequests r' = pendingRequests r" "requestIdCounter r' = ?c + 1"
      and new: "new = [Reject ?c err]"
      using assms(2) Some by (auto simp: getEarPowerData_def Let_def)
    show ?thesis
      unfolding requester_inv_def
    proof (intro conjI allI)
      show "distinct (map fst (pendingRequests r'))" using d r' by simp
      show "\<forall>(k, h)\<in>set (pendingRequests r'). h = k \<and> k < requestIdCounter r'"
        using hk r' by auto
      fix p
      show "resolved_count p (effs @ new) + rejected_count p (effs @ new) =
          (if p < requestIdCounter r' \<and> p \<notin> fst ` set (pendingRequests r') then 1 else 0)"
        using cnt [of p] new r' fresh
        by (cases "p \<in> fst ` set (pendingRequests r)"; cases "p = ?c")
           (simp_all add: less_Suc_eq)
    qed
  qed
qed


lemma map_of_pending:
  assumes "requester_inv r effs" and "map_of (pendingRequests r) i = Some h"
  shows "h = i" and "i \<in> fst ` set (pendingRequests r)" and "i < requestIdCounter r"
proof -
  from assms(2) have m: "(i, h) \<in> set (pendingRequests r)" by (rule map_of_SomeD)
  with assms(1) show "h = i" "i < requestIdCounter r" by (auto simp: requester_inv_def)
  from m show "i \<in> fst ` set (pendingRequests r)" by force
qed

lemma keys_delete:
  "fst ` set (AList.delete i al) = fst ` set al - {i}"
proof -
  have "set (map fst (AList.delete i al)) = set (map fst al) - {i}"
    by (simp only: delete_keys set_removeAll)
  then show ?thesis by simp
qed

lemma inv_handleWorkerMessage:
  assumes "requester_inv r effs" and "handleWorkerMessage r e = (r', new)"
  shows "requester_inv r' (effs @ new)"
proof -
  from assms(1) have d: "distinct (map fst (pendingRequests r))"
    and hk: "\<forall>(k, h) \<in> set (pendingRequests r). h = k \<and> k < requestIdCounter r"
    and cnt: "\<And>p. resolved_count p effs + rejected_count p effs =
          (if p < requestIdCounter r \<and> p \<notin> fst ` set (pendingRequests r) then 1 else 0)"
    by (simp_all add: requester_inv_def)
  consider
      (resolve) i h where "data_message e = Some ''data''" "data_requestId e = Some i"
        "map_of (pendingRequests r) i = Some h"
    | (other) "r' = r" "\<And>p. resolved_count p new = 0" "\<And>p. rejected_count p new = 0"
    using assms(2)
    by (auto simp: handleWorkerMessage_def split: if_splits option.splits)
  then show ?thesis
  proof cases
    case other
    then show ?thesis using assms(1) by (simp add: requester_inv_def)
  next
    case resolve
    have h: "h = i" and mem: "i \<in> fst ` set (pendingRequests r)" and lt: "i < requestIdCounter r"
      using map_of_pending [OF assms(1) resolve(3)] by simp_all
    have r': "pendingRequests r' = AList.delete i (pendingRequests r)"
      "requestIdCounter r' = requestIdCounter r"
      and new: "new = [Resolve i (new_Float32Array (data_buffer e))]"
      using assms(2) resolve h by (auto simp: handleWorkerMessage_def)
    show ?thesis
      unfolding requester_inv_def
    proof (intro conjI allI)
      show "distinct (map fst (pendingRequests r'))"
        using d r' by (simp add: distinct_delete)
      have "set (pendingRequests r') \<subseteq> set (pendingRequests r)"
        using r' by (auto simp: AList.delete_eq)
      then show "\<forall>(k, h)\<in>set (pendingRequests r'). h = k \<and> k < requestIdCounter r'"
        using hk r' by auto
      fix p
      have k: "fst ` set (pendingRequests r') = fst ` set (pendingRequests r) - {i}"
        using r' by (simp add: keys_delete)
      show "resolved_count p (effs @ new) + rejected_count p (effs @ new) =
          (if p < requestIdCounter r' \<and> p \<notin> fst ` set (pendingRequests r') then 1 else 0)"
        using cnt [of p] new r'(2) mem lt unfolding k
        by (cases "p \<in> fst ` set (pendingRequests r)"; cases "p = i") simp_all
    qed
  qed
qed

lemma inv_destroy:
  assumes "requester_inv r effs" and "destroy r = (r', new)"
  shows "requester_inv r' (effs @ new)" and "pendingRequests r' = []"
proof -
  from assms(1) have d: "distinct (map fst (pendingRequests r))"
    and hk: "\<forall>(k, h) \<in> set (pendingRequests r). h = k \<and> k < requestIdCounter r"
    and cnt: "\<And>p. resolved_count p effs + rejected_count p effs =
          (if p < requestIdCounter r \<and> p \<notin> fst ` set (pendingRequests r) then 1 else 0)"
    by (simp_all add: requester_inv_def)
  have hk': "\<forall>(k, h) \<in> set (pendingRequests r). h = k" using hk by auto
  have r': "pendingRequests r' = []" "requestIdCounter r' = requestIdCounter r"
    and new: "new = map (\<lambda>(requestId, resolve_reject).
                  Reject resolve_reject ''EarDataRequester instance was destroyed.'')
                (pendingRequests r) @ [Log ''EarDataRequester destroyed.'']"
    using assms(2) by (auto simp: destroy_def Let_def)
  show "pendingRequests r' = []" by (rule r'(1))
  have mem: "p \<in> fst ` set (pendingRequests r) \<Longrightarrow> p < requestIdCounter r" for p
    using hk by auto
  show "requester_inv r' (effs @ new)"
    unfolding requester_inv_def
  proof (intro conjI allI)
    show "distinct (map fst (pendingRequests r'))" using r' by simp
    show "\<forall>(k, h)\<in>set (pendingRequests r'). h = k \<and> k < requestIdCounter r'" using r' by simp
    fix p
    show "resolved_count p (effs @ new) + rejected_count p (effs @ new) =
        (if p < requestIdCounter r' \<and> p \<notin> fst ` set (pendingRequests r') then 1 else 0)"
      using cnt [of p] mem [of p] r'
      by (cases "p \<in> fst ` set (pendingRequests r)")
         (simp_all add: new resolved_count_rejections rejected_count_rejections [OF d hk'])
  qed
qed

lemma inv_step:
  assumes "requester_inv r effs" and "step r ev = (r', new)"
  shows "requester_inv r' (effs @ new)"
proof (cases ev)
  case (Request thrown)
  then show ?thesis using assms by (simp add: inv_getEarPowerData)
next
  case (WorkerMessage e)
  show ?thesis
  proof (cases "port_onmessage r")
    case True
    then show ?thesis using assms WorkerMessage by (simp add: inv_handleWorkerMessage)
  next
    case False
    then show ?thesis using assms WorkerMessage by auto
  qed
next
  case Destroy
  then show ?thesis using assms by (simp add: inv_destroy(1))
qed

lemma inv_run:
  assumes "requester_inv r effs" and "run (r, effs) evs = (r', effs')"
  shows "requester_inv r' effs'"
  using assms
proof (induction evs arbitrary: r effs)
  case Nil
  then show ?case by simp
next
  case (Cons ev evs)
  obtain r1 new where s: "step r ev = (r1, new)" by (cases "step r ev")
  have "requester_inv r1 (effs @ new)" using Cons.prems(1) s by (rule inv_step)
  moreover have "run (r1, effs @ new) evs = (r', effs')" using Cons.prems(2) s by simp
  ultimately show ?case by (rule Cons.IH)
qed


lemma unknown_id_discarded:
  assumes "map_of (pendingRequests r) i = None"
  shows "handleWorkerMessage r
           \<lparr>data_type = t, data_message = Some ''data'', data_buffer = b, data_requestId = Some i\<rparr>
         = (r, [Warn ''EarDataRequester: Received data for unknown requestId: '' i])"
  using assms by (simp add: handleWorkerMessage_def)

text \<open>
  C7: in any run of an \<open>EarDataRequester\<close> (requests whose message is sent or fails to
  be sent, messages from the worker, \<open>destroy\<close>), no promise is settled twice or both
  ways; a request id still pending has not been settled and one no longer pending was
  resolved once or rejected once; a response whose id has no pending request is logged
  and dropped, resolving nothing; \<open>destroy\<close> rejects each outstanding request once and
  clears the pending map, after which every request issued has been settled exactly
  once.
\<close>

theorem each_request_settled_once:
  assumes "run (EarDataRequester_new, []) evs = (r, effs)"
  shows "(\<forall>p. resolved_count p effs + rejected_count p effs \<le> 1)
       \<and> (\<forall>p < requestIdCounter r. p \<in> fst ` set (pendingRequests r) \<longrightarrow>
              resolved_count p effs + rejected_count p effs = 0)
       \<and> (\<forall>p < requestIdCounter r. p \<notin> fst ` set (pendingRequests r) \<longrightarrow>
              resolved_count p effs + rejected_count p effs = 1)
       \<and> (map_of (pendingRequests r) i = None \<longrightarrow>
            handleWorkerMessage r
              \<lparr>data_type = t, data_message = Some ''data'', data_buffer = b,
               data_requestId = Some i\<rparr>
            = (r, [Warn ''EarDataRequester: Received data for unknown requestId: '' i]))
       \<and> pendingRequests (fst (destroy r)) = []
       \<and> (\<forall>p \<in> fst ` set (pendingRequests r).
              rejected_count p (snd (destroy r)) = 1 \<and> resolved_count p (snd (destroy r)) = 0)
       \<and> (\<forall>p < requestIdCounter r.
              resolved_count p (effs @ snd (destroy r))
              + rejected_count p (effs @ snd (destroy r)) = 1)"
proof -
  have inv: "requester_inv r effs"
    using inv_new assms by (rule inv_run)
  then have d: "distinct (map fst (pendingRequests r))"
    and hk: "\<forall>(k, h) \<in> set (pendingRequests r). h = k"
    and cnt: "\<And>p. resolved_count p effs + rejected_count p effs =
          (if p < requestIdCounter r \<and> p \<notin> fst ` set (pendingRequests r) then 1 else 0)"
    by (auto simp: requester_inv_def)
  obtain r' new where ds: "destroy r = (r', new)" by (cases "destroy r")
  have inv': "requester_inv r' (effs @ new)" and e: "pendingRequests r' = []"
    using inv ds by (rule inv_destroy)+
  have c: "requestIdCounter r' = requestIdCounter r"
    using ds by (auto simp: destroy_def Let_def)
  have new: "new = map (\<lambda>(requestId, resolve_reject).
                  Reject resolve_reject ''EarDataRequester instance was destroyed.'')
                (pendingRequests r) @ [Log ''EarDataRequester destroyed.'']"
    using ds by (auto simp: destroy_def Let_def)
  have A: "\<forall>p. resolved_count p effs + rejected_count p effs \<le> 1"
    using cnt by simp
  have B: "\<forall>p < requestIdCounter r. p \<in> fst ` set (pendingRequests r) \<longrightarrow>
              resolved_count p effs + rejected_count p effs = 0"
    using cnt by simp
  have C: "\<forall>p < requestIdCounter r. p \<notin> fst ` set (pendingRequests r) \<longrightarrow>
              resolved_count p effs + rejected_count p effs = 1"
    using cnt by simp
  have D: "map_of (pendingRequests r) i = None \<longrightarrow>
            handleWorkerMessage r
              \<lparr>data_type = t, data_message = Some ''data'', data_buffer = b,
               data_requestId = Some i\<rparr>
            = (r, [Warn ''EarDataRequester: Received data for unknown requestId: '' i])"
    by (simp add: unknown_id_discarded)
  have E: "pendingRequests (fst (destroy r)) = []"
    using ds e by simp
  have F: "\<forall>p \<in> fst ` set (pendingRequests r).
              rejected_count p (snd (destroy r)) = 1 \<and> resolved_count p (snd (destroy r)) = 0"
    using ds by (simp add: new resolved_count_rejections rejected_count_rejections [OF d hk])
  have "resolved_count p (effs @ new) + rejected_count p (effs @ new) = 1"
    if "p < requestIdCounter r" for p
    using inv' that e c by (simp add: requester_inv_def)
  then have G: "\<forall>p < requestIdCounter r.
              resolved_count p (effs @ snd (destroy r))
              + rejected_count p (effs @ snd (destroy r)) = 1"
    using ds by simp
  from A B C D E F G show ?thesis by blast
qed

theorem each_request_settled_once_witness:
  "\<exists>r effs.
     run (EarDataRequester_new, [])
       [Request None, Request None, Request (Some ''DataCloneError''),
        WorkerMessage \<lparr>data_type = None, data_message = Some ''data'',
                        data_buffer = Some (ArrayBuffer (replicate 88 (Num 0))),
                        data_requestId = Some 1\<rparr>,
        WorkerMessage \<lparr>data_type = None, data_message = Some ''data'',
                        data_buffer = Some (ArrayBuffer (replicate 88 (Num 0))),
                        data_requestId = Some 1\<rparr>]
       = (r, effs)
     \<and> pendingRequests r = [(0, 0)] \<and> requestIdCounter r = 3
     \<and> resolved_count 0 effs + rejected_count 0 effs = 0
     \<and> resolved_count 1 effs + rejected_count 1 effs = 1
     \<and> resolved_count 2 effs + rejected_count 2 effs = 1
     \<and> handleWorkerMessage r
          \<lparr>data_type = None, data_message = Some ''data'', data_buffer = None,
           data_requestId = Some 1\<rparr>
        = (r, [Warn ''EarDataRequester: Received data for unknown requestId: '' 1])
     \<and> rejected_count 0 (snd (destroy r)) = 1
     \<and> resolved_count 0 (effs @ snd (destroy r)) + rejected_count 0 (effs @ snd (destroy r)) = 1"
proof -
  define r0 where "r0 = \<lparr>port_onmessage = True, pendingRequests = [(0, 0)], requestIdCounter = 3\<rparr>"
  define m where "m = \<lparr>data_type = None, data_message = Some ''data'',
                        data_buffer = Some (ArrayBuffer (replicate 88 (Num 0))),
                        data_requestId = Some (1::nat)\<rparr>"
  define effs0 where "effs0 =
     [PostMessage \<lparr>data_type = None, data_message = Some ''get-data'',
                   data_buffer = Some (ArrayBuffer (replicate 88 (Num 0))),
                   data_requestId = Some 0\<rparr>,
      PostMessage \<lparr>data_type = None, data_message = Some ''get-data'',
                   data_buffer = Some (ArrayBuffer (replicate 88 (Num 0))),
                   data_requestId = Some 1\<rparr>,
      Reject 2 ''DataCloneError'',
      Resolve 1 (replicate 88 (Num 0)),
      Warn ''EarDataRequester: Received data for unknown requestId: '' 1]"
  have h: "run (EarDataRequester_new, [])
       [Request None, Request None, Request (Some ''DataCloneError''), WorkerMessage m, WorkerMessage m]
       = (r0, effs0)"
    by (simp add: EarDataRequester_new_def getEarPowerData_def handleWorkerMessage_def
        Let_def r0_def effs0_def m_def)
  have k: "pendingRequests r0 = [(0, 0)]" "requestIdCounter r0 = 3"
    "map_of (pendingRequests r0) 1 = None"
    by (simp_all add: r0_def)
  from each_request_settled_once [OF h, of 1 None None] k
  have "resolved_count 0 effs0 + rejected_count 0 effs0 = 0
     \<and> resolved_count 1 effs0 + rejected_count 1 effs0 = 1
     \<and> resolved_count 2 effs0 + rejected_count 2 effs0 = 1
     \<and> handleWorkerMessage r0
          \<lparr>data_type = None, data_message = Some ''data'', data_buffer = None,
           data_requestId = Some 1\<rparr>
        = (r0, [Warn ''EarDataRequester: Received data for unknown requestId: '' 1])
     \<and> rejected_count 0 (snd (destroy r0)) = 1
     \<and> resolved_count 0 (effs0 @ snd (destroy r0)) + rejected_count 0 (effs0 @ snd (destroy r0)) = 1"
    by simp
  with h k show ?thesis unfolding m_def by blast
qed

end
